theory Spec2Isabelle
  imports Complex_Main "HOL-Library.AList"
begin

section \<open>JavaScript values\<close>

text \<open>
  The dashboard client (\<^verbatim>\<open>static/js/app.js\<close>, and an earlier version of it that draws
  a sparkline chart per card) is a Vue application. Its methods are embedded here as
  functions over explicit state. JavaScript numbers are modelled by
  exact reals together with the three non-finite values; rounding of doubles is not
  modelled (ranks, window sizes and pixel coordinates are far inside the range in which
  integers are exact).
\<close>

datatype jsnum = Fin real | PosInf | NegInf | NaN

datatype prim = Undefined | Null | Bool bool | Num jsnum | Str string

text \<open>Truthiness of a primitive, as \<^verbatim>\<open>if (v)\<close> and \<^verbatim>\<open>!v\<close> evaluate it.\<close>

fun truthy_prim :: "prim \<Rightarrow> bool" where
  "truthy_prim Undefined = False"
| "truthy_prim Null = False"
| "truthy_prim (Bool b) = b"
| "truthy_prim (Num (Fin r)) = (r \<noteq> 0)"
| "truthy_prim (Num NaN) = False"
| "truthy_prim (Num _) = True"
| "truthy_prim (Str s) = (s \<noteq> [])"

section \<open>Tooltip geometry\<close>

text \<open>
  \<^verbatim>\<open>updateTooltipPos(evt)\<close> reads the pointer position from the event, the viewport
  size from \<^verbatim>\<open>window.innerWidth/innerHeight\<close> and the tooltip size from the rendered
  element \<^verbatim>\<open>this.$refs.tooltipElement\<close> (absent while the tooltip is not rendered), and
  writes \<^verbatim>\<open>this.tooltip.x\<close> and \<^verbatim>\<open>this.tooltip.y\<close>.
\<close>

record pointer_event =
  clientX :: real
  clientY :: real

record element_box =
  offsetWidth :: real
  offsetHeight :: real

record viewport =
  innerWidth :: real
  innerHeight :: real

record 'pt tooltip =
  tt_show :: bool
  tt_x :: real
  tt_y :: real
  tt_point :: "'pt option"

definition offset :: real where
  "offset = 16"

definition updateTooltipPos ::
  "element_box option \<Rightarrow> viewport \<Rightarrow> pointer_event \<Rightarrow> 'pt tooltip \<Rightarrow> 'pt tooltip" where
  "updateTooltipPos tooltipEl window evt tooltip =
     (let windowWidth = innerWidth window;
          windowHeight = innerHeight window;
          newX = clientX evt + offset;
          newY = clientY evt + offset
      in case tooltipEl of
           None \<Rightarrow> tooltip\<lparr>tt_x := newX, tt_y := newY\<rparr>
         | Some el \<Rightarrow>
             (let tooltipWidth = offsetWidth el;
                  tooltipHeight = offsetHeight el;
                  newX' = (if clientX evt + offset + tooltipWidth > windowWidth
                           then clientX evt - tooltipWidth - offset else newX);
                  newY' = (if clientY evt + offset + tooltipHeight > windowHeight
                           then clientY evt - tooltipHeight - offset else newY)
              in tooltip\<lparr>tt_x := newX', tt_y := newY'\<rparr>))"

text \<open>
  The tooltip box placed at \<open>(tt_x, tt_y)\<close> with the size of the element lies inside
  \<open>[0, innerWidth] \<times> [0, innerHeight]\<close>.
\<close>

definition contained :: "viewport \<Rightarrow> element_box \<Rightarrow> 'pt tooltip \<Rightarrow> bool" where
  "contained window el tooltip \<longleftrightarrow>
     0 \<le> tt_x tooltip \<and> tt_x tooltip + offsetWidth el \<le> innerWidth window \<and>
     0 \<le> tt_y tooltip \<and> tt_y tooltip + offsetHeight el \<le> innerHeight window"

text \<open>The tooltip state of \<^verbatim>\<open>data()\<close>, and the show/hide transitions.\<close>

definition tooltip0 :: "'pt tooltip" where
  "tooltip0 = \<lparr>tt_show = False, tt_x = 0, tt_y = 0, tt_point = None\<rparr>"

definition hideTooltip :: "'pt tooltip \<Rightarrow> 'pt tooltip" where
  "hideTooltip tooltip = tooltip\<lparr>tt_show := False, tt_point := None\<rparr>"

section \<open>History window extraction\<close>

text \<open>
  \<^verbatim>\<open>historySlice(api)\<close> copies arrays, so it is modelled over an explicit heap: a list
  of cells addressed by position, in which an entity is an object cell whose fields hold
  primitives or references to array cells. Allocation appends a cell.
\<close>

datatype hval = HPrim prim | HRef nat

datatype cell = ArrayCell "hval list" | ObjectCell "(string \<times> hval) list"

type_synonym heap = "cell list"

definition truthy :: "hval \<Rightarrow> bool" where
  "truthy v = (case v of HPrim p \<Rightarrow> truthy_prim p | HRef _ \<Rightarrow> True)"

text \<open>
  \<open>field h v f\<close> is the property read \<^verbatim>\<open>v.f\<close> for a data field \<open>f\<close> of a value that is
  not null or undefined: the stored value for an object that has the field, and
  \<^verbatim>\<open>undefined\<close> otherwise (the fields read here are no index and not \<^verbatim>\<open>length\<close>, so an
  array or a primitive has none of them).
\<close>

definition field :: "heap \<Rightarrow> hval \<Rightarrow> string \<Rightarrow> hval" where
  "field h v f =
     (case v of
        HPrim _ \<Rightarrow> HPrim Undefined
      | HRef a \<Rightarrow>
          (if a < length h then
             (case h ! a of
                ObjectCell fs \<Rightarrow> (case map_of fs f of Some x \<Rightarrow> x | None \<Rightarrow> HPrim Undefined)
              | ArrayCell _ \<Rightarrow> HPrim Undefined)
           else HPrim Undefined))"

text \<open>\<open>array_of h v\<close> is \<open>Some\<close> of the elements exactly when \<^verbatim>\<open>Array.isArray(v)\<close>.\<close>

definition array_of :: "heap \<Rightarrow> hval \<Rightarrow> hval list option" where
  "array_of h v =
     (case v of
        HPrim _ \<Rightarrow> None
      | HRef a \<Rightarrow>
          (if a < length h then
             (case h ! a of ArrayCell xs \<Rightarrow> Some xs | ObjectCell _ \<Rightarrow> None)
           else None))"

definition elements :: "heap \<Rightarrow> nat \<Rightarrow> hval list" where
  "elements h a = (case array_of h (HRef a) of Some xs \<Rightarrow> xs | None \<Rightarrow> [])"

definition alloc_array :: "heap \<Rightarrow> hval list \<Rightarrow> heap \<times> nat" where
  "alloc_array h xs = (h @ [ArrayCell xs], length h)"

text \<open>\<^verbatim>\<open>Array.isArray(v) ? v.slice() : []\<close>\<close>

definition copy_or_empty :: "heap \<Rightarrow> hval \<Rightarrow> heap \<times> nat" where
  "copy_or_empty h v =
     alloc_array h (case array_of h v of Some xs \<Rightarrow> xs | None \<Rightarrow> [])"

text \<open>\<^verbatim>\<open>arr.slice(start)\<close> for an array \<open>arr\<close> and \<open>start \<ge> 0\<close>.\<close>

definition slice_from :: "heap \<Rightarrow> nat \<Rightarrow> int \<Rightarrow> heap \<times> nat" where
  "slice_from h a start = alloc_array h (drop (nat start) (elements h a))"

text \<open>The \<^verbatim>\<open>switch (this.timeRange)\<close>.\<close>

definition window_size :: "string \<Rightarrow> nat" where
  "window_size timeRange =
     (if timeRange = ''24h'' then 20
      else if timeRange = ''7d'' then 40
      else 60)"

text \<open>The returned object \<^verbatim>\<open>{values, labels, ok, status}\<close>, by the addresses of its arrays.\<close>

record slice =
  sl_values :: nat
  sl_labels :: nat
  sl_ok :: nat
  sl_status :: nat

definition historySlice :: "string \<Rightarrow> heap \<Rightarrow> hval \<Rightarrow> heap \<times> slice" where
  "historySlice timeRange h api =
     (if \<not> truthy api then
        (let (h1, v) = alloc_array h [];
             (h2, l) = alloc_array h1 [];
             (h3, k) = alloc_array h2 [];
             (h4, s) = alloc_array h3 []
         in (h4, \<lparr>sl_values = v, sl_labels = l, sl_ok = k, sl_status = s\<rparr>))
      else
        (let (h1, values) = copy_or_empty h (field h api ''history'');
             (h2, labels) = copy_or_empty h1 (field h1 api ''history_ts'');
             (h3, okFlags) = copy_or_empty h2 (field h2 api ''history_ok'');
             (h4, statusCodes) = copy_or_empty h3 (field h3 api ''history_status'');
             len = length (elements h4 values);
             n = window_size timeRange;
             start = max 0 (int len - int n);
             (h5, v) = slice_from h4 values start;
             (h6, l) = slice_from h5 labels start;
             (h7, k) = slice_from h6 okFlags start;
             (h8, s) = slice_from h7 statusCodes start
         in (h8, \<lparr>sl_values = v, sl_labels = l, sl_ok = k, sl_status = s\<rparr>)))"

text \<open>
  What a history field of an entity holds, with an absent or non-array field, and every
  field of an absent entity, read as empty.
\<close>

definition source :: "heap \<Rightarrow> hval \<Rightarrow> string \<Rightarrow> hval list" where
  "source h api f =
     (if truthy api
      then (case array_of h (field h api f) of Some xs \<Rightarrow> xs | None \<Rightarrow> [])
      else [])"

text \<open>
  A heap has no dangling reference at the entity: the entity and the values of its
  fields, when references, are addresses of the heap.
\<close>

definition valid_ref :: "heap \<Rightarrow> hval \<Rightarrow> bool" where
  "valid_ref h v = (case v of HPrim _ \<Rightarrow> True | HRef a \<Rightarrow> a < length h)"

definition well_formed :: "heap \<Rightarrow> hval \<Rightarrow> bool" where
  "well_formed h api =
     (case api of
        HPrim _ \<Rightarrow> True
      | HRef a \<Rightarrow>
          a < length h \<and>
          (case h ! a of
             ObjectCell fs \<Rightarrow> list_all (\<lambda>kv. valid_ref h (snd kv)) fs
           | ArrayCell _ \<Rightarrow> True))"

text \<open>The data model's invariant: the four history arrays of an entity have one length.\<close>

definition aligned :: "heap \<Rightarrow> hval \<Rightarrow> bool" where
  "aligned h api \<longleftrightarrow>
     length (source h api ''history_ts'') = length (source h api ''history'') \<and>
     length (source h api ''history_ok'') = length (source h api ''history'') \<and>
     length (source h api ''history_status'') = length (source h api ''history'')"

text \<open>The contents of the four arrays that a call returns.\<close>

definition slice_values :: "string \<Rightarrow> heap \<Rightarrow> hval \<Rightarrow> hval list" where
  "slice_values timeRange h api =
     (let (h', r) = historySlice timeRange h api in elements h' (sl_values r))"

definition slice_labels :: "string \<Rightarrow> heap \<Rightarrow> hval \<Rightarrow> hval list" where
  "slice_labels timeRange h api =
     (let (h', r) = historySlice timeRange h api in elements h' (sl_labels r))"

definition slice_ok :: "string \<Rightarrow> heap \<Rightarrow> hval \<Rightarrow> hval list" where
  "slice_ok timeRange h api =
     (let (h', r) = historySlice timeRange h api in elements h' (sl_ok r))"

definition slice_status :: "string \<Rightarrow> heap \<Rightarrow> hval \<Rightarrow> hval list" where
  "slice_status timeRange h api =
     (let (h', r) = historySlice timeRange h api in elements h' (sl_status r))"

text \<open>\<^verbatim>\<open>Array.isArray(v) ? v : []\<close>, without the copy.\<close>

definition grab :: "heap \<Rightarrow> hval \<Rightarrow> hval list" where
  "grab h v = (case array_of h v of Some xs \<Rightarrow> xs | None \<Rightarrow> [])"

section \<open>JSON values and objects used as maps\<close>

text \<open>
  The order map holds whatever \<^verbatim>\<open>JSON.parse\<close> returned, besides the numbers the registry
  assigns, and a property read also finds what the object inherits. A value is a primitive,
  an array, an object (its own properties in order, one entry per key), or \<open>Builtin k\<close>:
  the member \<open>k\<close> that \<^verbatim>\<open>Object.prototype\<close> or \<^verbatim>\<open>Array.prototype\<close> supplies.
\<close>

datatype jsval = Prim prim | Arr "jsval list" | Obj "(string \<times> jsval) list" | Builtin string

text \<open>
  An object used as a map: made by \<^verbatim>\<open>Object.create(null)\<close> (no prototype), an ordinary
  object (\<^verbatim>\<open>{}\<close>, or an object from \<^verbatim>\<open>JSON.parse\<close>), or an array.
\<close>

datatype obj_class = NullProto | PlainObject | ArrayObject

record js_object =
  props :: "(string \<times> jsval) list"
  cls :: obj_class

definition object_prototype_keys :: "string list" where
  "object_prototype_keys =
     [''constructor'', ''hasOwnProperty'', ''isPrototypeOf'', ''propertyIsEnumerable'',
      ''toLocaleString'', ''toString'', ''valueOf'', ''__proto__'', ''__defineGetter__'',
      ''__defineSetter__'', ''__lookupGetter__'', ''__lookupSetter__'']"

definition array_prototype_keys :: "string list" where
  "array_prototype_keys =
     [''at'', ''concat'', ''copyWithin'', ''entries'', ''every'', ''fill'', ''filter'',
      ''find'', ''findIndex'', ''findLast'', ''findLastIndex'', ''flat'', ''flatMap'',
      ''forEach'', ''includes'', ''indexOf'', ''join'', ''keys'', ''lastIndexOf'', ''map'',
      ''pop'', ''push'', ''reduce'', ''reduceRight'', ''reverse'', ''shift'', ''slice'',
      ''some'', ''sort'', ''splice'', ''toReversed'', ''toSorted'', ''toSpliced'',
      ''unshift'', ''values'', ''with'']"

text \<open>
  Array indices: a key is an index when it is the canonical decimal numeral of a number
  below \<open>2^32 - 1\<close>; the \<^verbatim>\<open>length\<close> of an array is one more than its largest index.
\<close>

definition is_digit :: "char \<Rightarrow> bool" where
  "is_digit c \<longleftrightarrow> 48 \<le> (of_char c :: nat) \<and> (of_char c :: nat) \<le> 57"

definition nat_of_digits :: "string \<Rightarrow> nat" where
  "nat_of_digits ds = foldl (\<lambda>n c. 10 * n + (of_char c - 48)) 0 ds"

definition array_index :: "string \<Rightarrow> nat option" where
  "array_index k =
     (if k \<noteq> [] \<and> list_all is_digit k \<and> (k = ''0'' \<or> hd k \<noteq> CHR ''0'')
         \<and> nat_of_digits k < 4294967295
      then Some (nat_of_digits k) else None)"

definition array_length :: "(string \<times> jsval) list \<Rightarrow> nat" where
  "array_length ps =
     foldl max 0 (map Suc (List.map_filter (\<lambda>kv. array_index (fst kv)) ps))"

fun digits_of :: "nat \<Rightarrow> string" where
  "digits_of n =
     (if n < 10 then [char_of (48 + n)]
      else digits_of (n div 10) @ [char_of (48 + n mod 10)])"

text \<open>
  The property read \<^verbatim>\<open>obj[k]\<close>: an own enumerable property first (\<open>props\<close>), then what
  the object has besides: the \<^verbatim>\<open>length\<close> of an array, and the members inherited from
  the prototype chain, all of which are neither null nor undefined.
\<close>

definition inherited :: "obj_class \<Rightarrow> (string \<times> jsval) list \<Rightarrow> string \<Rightarrow> jsval" where
  "inherited c ps k =
     (case c of
        NullProto \<Rightarrow> Prim Undefined
      | PlainObject \<Rightarrow>
          (if k \<in> set object_prototype_keys then Builtin k else Prim Undefined)
      | ArrayObject \<Rightarrow>
          (if k = ''length'' then Prim (Num (Fin (real (array_length ps))))
           else if k \<in> set array_prototype_keys \<or> k \<in> set object_prototype_keys
           then Builtin k else Prim Undefined))"

definition get_prop :: "js_object \<Rightarrow> string \<Rightarrow> jsval" where
  "get_prop ob k =
     (case map_of (props ob) k of Some v \<Rightarrow> v | None \<Rightarrow> inherited (cls ob) (props ob) k)"

text \<open>
  The assignment \<^verbatim>\<open>obj[k] = v\<close>, made only where \<^verbatim>\<open>obj[k]\<close> is null or undefined: it
  writes an own property (no setter is inherited under such a key).
\<close>

definition set_prop :: "js_object \<Rightarrow> string \<Rightarrow> jsval \<Rightarrow> js_object" where
  "set_prop ob k v = ob\<lparr>props := AList.update k v (props ob)\<rparr>"

text \<open>\<^verbatim>\<open>v == null\<close>\<close>

definition is_nullish :: "jsval \<Rightarrow> bool" where
  "is_nullish v \<longleftrightarrow> v = Prim Undefined \<or> v = Prim Null"

text \<open>
  \<^verbatim>\<open>ToNumber\<close>. The conversion of strings, arrays, objects and built-in members is the
  runtime's and is a parameter \<open>tn\<close>; it gives \<open>None\<close> where the conversion throws a
  \<^verbatim>\<open>TypeError\<close>.
\<close>

definition to_number :: "(jsval \<Rightarrow> jsnum option) \<Rightarrow> jsval \<Rightarrow> jsnum option" where
  "to_number tn v =
     (case v of
        Prim Undefined \<Rightarrow> Some NaN
      | Prim Null \<Rightarrow> Some (Fin 0)
      | Prim (Bool b) \<Rightarrow> Some (Fin (if b then 1 else 0))
      | Prim (Num n) \<Rightarrow> Some n
      | _ \<Rightarrow> tn v)"

fun js_minus :: "jsnum \<Rightarrow> jsnum \<Rightarrow> jsnum" where
  "js_minus NaN _ = NaN"
| "js_minus _ NaN = NaN"
| "js_minus (Fin x) (Fin y) = Fin (x - y)"
| "js_minus (Fin x) PosInf = NegInf"
| "js_minus (Fin x) NegInf = PosInf"
| "js_minus PosInf PosInf = NaN"
| "js_minus PosInf _ = PosInf"
| "js_minus NegInf NegInf = NaN"
| "js_minus NegInf _ = NegInf"

fun js_max :: "jsnum \<Rightarrow> jsnum \<Rightarrow> jsnum" where
  "js_max NaN _ = NaN"
| "js_max _ NaN = NaN"
| "js_max PosInf _ = PosInf"
| "js_max _ PosInf = PosInf"
| "js_max NegInf b = b"
| "js_max a NegInf = a"
| "js_max (Fin x) (Fin y) = Fin (max x y)"

text \<open>
  \<^verbatim>\<open>Math.max(...vs)\<close>: every argument is converted first (a conversion that throws ends
  the call), a \<^verbatim>\<open>NaN\<close> among them gives \<^verbatim>\<open>NaN\<close>, no argument gives \<^verbatim>\<open>-Infinity\<close>.
\<close>

definition math_max :: "(jsval \<Rightarrow> jsnum option) \<Rightarrow> jsval list \<Rightarrow> jsnum option" where
  "math_max tn vs =
     (case those (map (to_number tn) vs) of
        None \<Rightarrow> None
      | Some ns \<Rightarrow> Some (foldl js_max NegInf ns))"

section \<open>Order registry\<close>

record registry =
  orderMap :: js_object
  nextOrder :: real

text \<open>
  An entity record of a snapshot: its \<^verbatim>\<open>name\<close>, the stamped \<^verbatim>\<open>__order\<close> (undefined
  until stamped), and the other fields, which the registry does not read.
\<close>

record 'p entity =
  name :: string
  uu_order :: jsval
  payload :: 'p

text \<open>The \<^verbatim>\<open>list.forEach\<close> of \<^verbatim>\<open>ensureStableOrder\<close>.\<close>

fun stamp :: "'z registry_scheme \<Rightarrow> 'p entity list \<Rightarrow> 'z registry_scheme \<times> 'p entity list" where
  "stamp st [] = (st, [])"
| "stamp st (api # rest) =
     (let st1 = (if is_nullish (get_prop (orderMap st) (name api))
                 then st\<lparr>orderMap := set_prop (orderMap st) (name api)
                                       (Prim (Num (Fin (nextOrder st)))),
                         nextOrder := nextOrder st + 1\<rparr>
                 else st);
          api' = api\<lparr>uu_order := get_prop (orderMap st1) (name api)\<rparr>;
          (st2, rest') = stamp st1 rest
      in (st2, api' # rest'))"

text \<open>The first statement of the loop body, on its own: the registry after it.\<close>

definition assign_rank :: "'z registry_scheme \<Rightarrow> 'p entity \<Rightarrow> 'z registry_scheme" where
  "assign_rank st api =
     (if is_nullish (get_prop (orderMap st) (name api))
      then st\<lparr>orderMap := set_prop (orderMap st) (name api) (Prim (Num (Fin (nextOrder st)))),
              nextOrder := nextOrder st + 1\<rparr>
      else st)"

text \<open>
  The comparator \<^verbatim>\<open>(a, b) => a.__order - b.__order\<close>, and \<^verbatim>\<open>Array.prototype.sort\<close> with
  it: a stable sort that puts \<open>a\<close> after \<open>b\<close> exactly when the comparator is positive
  (a \<^verbatim>\<open>NaN\<close> result counts as 0). Where the comparator is no consistent order (ranks that
  are not numbers) the order an engine produces is its own; this insertion sort is one
  such order. A comparator that throws ends the sort.
\<close>

definition comparator ::
  "(jsval \<Rightarrow> jsnum option) \<Rightarrow> 'p entity \<Rightarrow> 'p entity \<Rightarrow> jsnum option" where
  "comparator tn a b =
     (case to_number tn (uu_order a) of
        None \<Rightarrow> None
      | Some x \<Rightarrow>
          (case to_number tn (uu_order b) of
             None \<Rightarrow> None
           | Some y \<Rightarrow> Some (js_minus x y)))"

fun is_positive :: "jsnum \<Rightarrow> bool" where
  "is_positive (Fin r) = (0 < r)"
| "is_positive PosInf = True"
| "is_positive _ = False"

fun insert_by ::
  "(jsval \<Rightarrow> jsnum option) \<Rightarrow> 'p entity \<Rightarrow> 'p entity list \<Rightarrow> 'p entity list option" where
  "insert_by tn a [] = Some [a]"
| "insert_by tn a (b # bs) =
     (case comparator tn a b of
        None \<Rightarrow> None
      | Some c \<Rightarrow>
          (if is_positive c
           then (case insert_by tn a bs of None \<Rightarrow> None | Some r \<Rightarrow> Some (b # r))
           else Some (a # b # bs)))"

fun sort_by_order ::
  "(jsval \<Rightarrow> jsnum option) \<Rightarrow> 'p entity list \<Rightarrow> 'p entity list option" where
  "sort_by_order tn [] = Some []"
| "sort_by_order tn (a # as) =
     (case sort_by_order tn as of None \<Rightarrow> None | Some r \<Rightarrow> insert_by tn a r)"

text \<open>
  How a call on an array ends: it returns the array, or it throws and leaves the array
  with the contents given (stamped; the order in which an interrupted sort leaves them is
  the engine's).
\<close>

datatype 'a completion = Returns 'a | Throws 'a

fun listed :: "'a completion \<Rightarrow> 'a" where
  "listed (Returns xs) = xs"
| "listed (Throws xs) = xs"

definition ensureStableOrder ::
  "(jsval \<Rightarrow> jsnum option) \<Rightarrow> 'z registry_scheme \<Rightarrow> 'p entity list
     \<Rightarrow> 'z registry_scheme \<times> 'p entity list completion" where
  "ensureStableOrder tn st list =
     (let (st', stamped) = stamp st list
      in (st', case sort_by_order tn stamped of
                 None \<Rightarrow> Throws stamped
               | Some ordered \<Rightarrow> Returns ordered))"

text \<open>The snapshots of a session, processed one after the other.\<close>

fun session ::
  "(jsval \<Rightarrow> jsnum option) \<Rightarrow> 'z registry_scheme \<Rightarrow> 'p entity list list
     \<Rightarrow> 'p entity list completion list" where
  "session tn st [] = []"
| "session tn st (snap # snaps) =
     (let (st', r) = ensureStableOrder tn st snap in r # session tn st' snaps)"

text \<open>
  What \<^verbatim>\<open>localStorage.getItem("apiOrder")\<close> and \<^verbatim>\<open>JSON.parse\<close> make of the persisted
  order: the storage cannot be read (\<^verbatim>\<open>getItem\<close> throws), the key is missing (or holds the
  empty string, which \<^verbatim>\<open>|| "{}"\<close> replaces as well), the text is no JSON (\<^verbatim>\<open>JSON.parse\<close>
  throws), or it parses to a value.
\<close>

datatype persisted = Unavailable | Missing | Unparsable | Parsed jsval

text \<open>
  \<^verbatim>\<open>saved && typeof saved === "object"\<close>, with the parsed value as the object it is: an
  array has its elements under the index keys.
\<close>

definition as_object :: "jsval \<Rightarrow> js_object option" where
  "as_object saved =
     (case saved of
        Prim _ \<Rightarrow> None
      | Arr vs \<Rightarrow> Some \<lparr>props = zip (map digits_of [0..<length vs]) vs, cls = ArrayObject\<rparr>
      | Obj kvs \<Rightarrow> Some \<lparr>props = kvs, cls = PlainObject\<rparr>
      | Builtin _ \<Rightarrow> None)"

definition adopt ::
  "(jsval \<Rightarrow> jsnum option) \<Rightarrow> jsval \<Rightarrow> 'z registry_scheme \<Rightarrow> 'z registry_scheme" where
  "adopt tn saved st =
     (case as_object saved of
        None \<Rightarrow> st
      | Some ob \<Rightarrow>
          (let st1 = st\<lparr>orderMap := ob\<rparr>
           in case math_max tn (Prim (Num (Fin (- 1))) # map snd (props ob)) of
                None \<Rightarrow> st1
              | Some m \<Rightarrow> st1\<lparr>nextOrder := (case m of Fin r \<Rightarrow> r + 1 | _ \<Rightarrow> 0)\<rparr>))"

definition loadSavedOrder ::
  "(jsval \<Rightarrow> jsnum option) \<Rightarrow> persisted \<Rightarrow> 'z registry_scheme \<Rightarrow> 'z registry_scheme" where
  "loadSavedOrder tn p st =
     (case p of
        Unavailable \<Rightarrow> st
      | Missing \<Rightarrow> adopt tn (Obj []) st
      | Unparsable \<Rightarrow> st
      | Parsed saved \<Rightarrow> adopt tn saved st)"

text \<open>The registry of \<^verbatim>\<open>data()\<close>: \<^verbatim>\<open>orderMap: Object.create(null), nextOrder: 0\<close>.\<close>

definition registry0 :: registry where
  "registry0 = \<lparr>orderMap = \<lparr>props = [], cls = NullProto\<rparr>, nextOrder = 0\<rparr>"

section \<open>Status synchroniser\<close>

text \<open>
  The part of the component's state that \<^verbatim>\<open>fetchStatus\<close>, \<^verbatim>\<open>startPolling\<close> and
  \<^verbatim>\<open>saveOrder\<close> read or write, with the environment they act on: the interval timers that
  are pending (handle and delay; the callback of each is \<^verbatim>\<open>fetchStatus\<close>, the only one
  the program registers), the last timer handle issued (handles are positive and
  increasing), the persisted order, whether the storage accepts a write, and the
  callbacks queued with \<^verbatim>\<open>$nextTick\<close>. \<open>selectedApi = None\<close> is the empty object
  \<^verbatim>\<open>{}\<close> of \<^verbatim>\<open>data()\<close>; \<open>refreshInterval\<close> is the field as a string, as \<^verbatim>\<open>parseInt\<close>
  reads it.
\<close>

datatype tick = RefreshDetail

record 'p app = registry +
  apis :: "'p entity list"
  showModal :: bool
  selectedApi :: "'p entity option"
  fetchError :: "string option"
  isLoading :: bool
  refreshInterval :: string
  fetchIntervalId :: "nat option"
  timers :: "(nat \<times> int) list"
  timer_seq :: nat
  storage :: persisted
  storage_writable :: bool
  ticks :: "tick list"

text \<open>
  \<^verbatim>\<open>parseInt(s, 10)\<close>: leading white space is skipped, a sign is read, then the longest
  run of decimal digits; \<open>None\<close> is \<^verbatim>\<open>NaN\<close> (no digit).
\<close>

definition is_space :: "char \<Rightarrow> bool" where
  "is_space c \<longleftrightarrow> (of_char c :: nat) \<in> {9, 10, 11, 12, 13, 32}"

definition parseInt10 :: "string \<Rightarrow> int option" where
  "parseInt10 s =
     (let t = dropWhile is_space s;
          neg = (t \<noteq> [] \<and> hd t = CHR ''-'');
          u = (if t \<noteq> [] \<and> (hd t = CHR ''-'' \<or> hd t = CHR ''+'') then tl t else t);
          ds = takeWhile is_digit u
      in if ds = [] then None
         else Some ((if neg then - 1 else 1) * int (nat_of_digits ds)))"

definition clearInterval :: "nat \<Rightarrow> ('p, 'z) app_scheme \<Rightarrow> ('p, 'z) app_scheme" where
  "clearInterval h s = s\<lparr>timers := filter (\<lambda>t. fst t \<noteq> h) (timers s)\<rparr>"

definition setInterval :: "int \<Rightarrow> ('p, 'z) app_scheme \<Rightarrow> nat \<times> ('p, 'z) app_scheme" where
  "setInterval delay s =
     (let h = Suc (timer_seq s)
      in (h, s\<lparr>timers := timers s @ [(h, delay)], timer_seq := h\<rparr>))"

text \<open>\<^verbatim>\<open>if (this.fetchIntervalId) clearInterval(this.fetchIntervalId)\<close>\<close>

definition clear_pending :: "('p, 'z) app_scheme \<Rightarrow> ('p, 'z) app_scheme" where
  "clear_pending s =
     (case fetchIntervalId s of
        None \<Rightarrow> s
      | Some h \<Rightarrow> if h \<noteq> 0 then clearInterval h s else s)"

definition startPolling :: "('p, 'z) app_scheme \<Rightarrow> ('p, 'z) app_scheme" where
  "startPolling s =
     (let s1 = clear_pending s
      in case parseInt10 (refreshInterval s1) of
           None \<Rightarrow> s1
         | Some interval \<Rightarrow>
             (if interval > 0
              then (let (h, s2) = setInterval interval s1 in s2\<lparr>fetchIntervalId := Some h\<rparr>)
              else s1))"

text \<open>
  \<^verbatim>\<open>JSON.stringify\<close>, by what a later \<^verbatim>\<open>JSON.parse\<close> of the text returns: a number that
  is not finite becomes \<^verbatim>\<open>null\<close>; a property whose value is undefined or a function is
  left out of an object and is \<^verbatim>\<open>null\<close> in an array; an array keeps its index properties
  only, a missing index being \<^verbatim>\<open>null\<close>.
\<close>

definition serialisable :: "jsval \<Rightarrow> bool" where
  "serialisable v = (case v of Prim Undefined \<Rightarrow> False | Builtin _ \<Rightarrow> False | _ \<Rightarrow> True)"

fun jsonify :: "jsval \<Rightarrow> jsval" where
  "jsonify (Prim (Num (Fin r))) = Prim (Num (Fin r))"
| "jsonify (Prim (Num _)) = Prim Null"
| "jsonify (Prim Undefined) = Prim Null"
| "jsonify (Prim p) = Prim p"
| "jsonify (Arr vs) = Arr (map jsonify vs)"
| "jsonify (Obj kvs) =
     Obj (map (\<lambda>kv. (fst kv, jsonify (snd kv))) (filter (\<lambda>kv. serialisable (snd kv)) kvs))"
| "jsonify (Builtin k) = Prim Null"

definition stringify :: "js_object \<Rightarrow> jsval" where
  "stringify ob =
     (case cls ob of
        ArrayObject \<Rightarrow>
          Arr (map (\<lambda>i. case map_of (props ob) (digits_of i) of
                           Some v \<Rightarrow> jsonify v
                         | None \<Rightarrow> Prim Null)
                   [0..<array_length (props ob)])
      | _ \<Rightarrow> jsonify (Obj (props ob)))"

text \<open>\<^verbatim>\<open>saveOrder\<close>: a write that fails is swallowed.\<close>

definition saveOrder :: "('p, 'z) app_scheme \<Rightarrow> ('p, 'z) app_scheme" where
  "saveOrder s =
     (if storage_writable s then s\<lparr>storage := Parsed (stringify (orderMap s))\<rparr> else s)"

text \<open>
  \<^verbatim>\<open>fetchStatus\<close> is asynchronous: \<open>fetchStatus_begin\<close> is the part before the
  \<^verbatim>\<open>await\<close> (the flag returned tells whether a request was issued), and
  \<open>fetchStatus_settle\<close> is the rest, run when the request settles, on the state of that
  moment. The request is rejected (a network error, an HTTP error status, a response that
  cannot be read), or it resolves with data, which is an array of entity records or
  something else (for instance the text of a body that is no JSON), on which
  \<^verbatim>\<open>data.forEach\<close> throws.
\<close>

datatype 'p response = Rejected | NotArray | Items "'p entity list"

definition fetchStatus_begin :: "('p, 'z) app_scheme \<Rightarrow> ('p, 'z) app_scheme \<times> bool" where
  "fetchStatus_begin s =
     (let s1 = clear_pending s
      in if isLoading s1 then (s1, False)
         else (s1\<lparr>isLoading := True, fetchError := None\<rparr>, True))"

text \<open>The \<^verbatim>\<open>catch\<close> block.\<close>

definition fetch_failed :: "('p, 'z) app_scheme \<Rightarrow> ('p, 'z) app_scheme" where
  "fetch_failed s = s\<lparr>fetchError := Some ''Failed to fetch status.''\<rparr>"

text \<open>The \<^verbatim>\<open>try\<close> block after \<^verbatim>\<open>ensureStableOrder(data)\<close> has returned the array.\<close>

definition fetch_succeeded ::
  "'p entity list \<Rightarrow> ('p, 'z) app_scheme \<Rightarrow> ('p, 'z) app_scheme" where
  "fetch_succeeded data s =
     (let s1 = saveOrder (s\<lparr>apis := data\<rparr>);
          s2 = (case selectedApi s1 of
                  None \<Rightarrow> s1
                | Some sel \<Rightarrow>
                    if showModal s1 \<and> name sel \<noteq> []
                    then (case find (\<lambda>a. name a = name sel) (apis s1) of
                            None \<Rightarrow> s1
                          | Some updated \<Rightarrow> s1\<lparr>selectedApi := Some updated\<rparr>)
                    else s1)
      in s2\<lparr>ticks := ticks s2 @ [RefreshDetail]\<rparr>)"

definition fetchStatus_settle ::
  "(jsval \<Rightarrow> jsnum option) \<Rightarrow> 'p response \<Rightarrow> ('p, 'z) app_scheme \<Rightarrow> ('p, 'z) app_scheme" where
  "fetchStatus_settle tn res s =
     (let tried =
            (case res of
               Rejected \<Rightarrow> fetch_failed s
             | NotArray \<Rightarrow> fetch_failed s
             | Items data \<Rightarrow>
                 (case ensureStableOrder tn s data of
                    (s1, Throws _) \<Rightarrow> fetch_failed s1
                  | (s1, Returns ordered) \<Rightarrow> fetch_succeeded ordered s1))
      in startPolling (tried\<lparr>isLoading := False\<rparr>))"

text \<open>The state of \<^verbatim>\<open>data()\<close>, in an environment with the given storage, and \<^verbatim>\<open>mounted()\<close>.\<close>

definition app0 :: "persisted \<Rightarrow> bool \<Rightarrow> 'p app" where
  "app0 stored writable =
     \<lparr>orderMap = \<lparr>props = [], cls = NullProto\<rparr>, nextOrder = 0,
      apis = [], showModal = False, selectedApi = None, fetchError = None,
      isLoading = False, refreshInterval = ''30000'', fetchIntervalId = None,
      timers = [], timer_seq = 0, storage = stored, storage_writable = writable,
      ticks = []\<rparr>"

definition mounted :: "(jsval \<Rightarrow> jsnum option) \<Rightarrow> ('p, 'z) app_scheme \<Rightarrow> ('p, 'z) app_scheme" where
  "mounted tn s = startPolling (fst (fetchStatus_begin (loadSavedOrder tn (storage s) s)))"

text \<open>
  The polling invariant: every pending timer is the one whose handle is stored in
  \<^verbatim>\<open>fetchIntervalId\<close>, and handles are positive and were issued.
\<close>

definition poll_inv :: "('p, 'z) app_scheme \<Rightarrow> bool" where
  "poll_inv s \<longleftrightarrow>
     distinct (map fst (timers s)) \<and>
     list_all (\<lambda>t. fetchIntervalId s = Some (fst t)) (timers s) \<and>
     (case fetchIntervalId s of None \<Rightarrow> True | Some h \<Rightarrow> 0 < h \<and> h \<le> timer_seq s)"

section \<open>Chart lifecycle\<close>

text \<open>
  \<^verbatim>\<open>updateSparklines\<close> belongs to the version of the component that draws a sparkline per
  card. There an entity record has a \<^verbatim>\<open>history\<close> array besides its \<^verbatim>\<open>name\<close>; it is the
  payload of the record here. \<^verbatim>\<open>this.charts\<close> is an ordinary object (\<^verbatim>\<open>charts: {}\<close>)
  from entity names to chart instances; an instance is given by the canvas it is bound
  to and its labels and data. The environment is the rendering surface (\<open>attached\<close>: which
  element ids \<^verbatim>\<open>getElementById\<close> finds) and the charting library, whose constructor, \<^verbatim>\<open>update\<close>
  and \<^verbatim>\<open>destroy\<close> may throw.
\<close>

definition history :: "prim list entity \<Rightarrow> prim list" where
  "history api = payload api"

datatype chart = Chart string "string list" "prim list"

datatype js_error = TypeError | LibraryError

record surface =
  attached :: "string \<Rightarrow> bool"
  create_ok :: "string \<Rightarrow> bool"
  update_ok :: "chart \<Rightarrow> bool"
  destroy_ok :: "chart \<Rightarrow> bool"

text \<open>
  The handle map and the record of the \<^verbatim>\<open>destroy()\<close> calls made, each with whether it
  returned (\<open>True\<close>) or threw.
\<close>

record sparks =
  charts :: "(string \<times> chart) list"
  destroyed :: "(chart \<times> bool) list"

text \<open>The read \<^verbatim>\<open>this.charts[k]\<close>: nothing, an own handle, or an inherited member.\<close>

datatype slot = Absent | Own chart | Inherited string

definition chart_slot :: "(string \<times> chart) list \<Rightarrow> string \<Rightarrow> slot" where
  "chart_slot cs k =
     (case map_of cs k of
        Some c \<Rightarrow> Own c
      | None \<Rightarrow> if k \<in> set object_prototype_keys then Inherited k else Absent)"

text \<open>
  \<^verbatim>\<open>slug(name)\<close>: lower case, every run of characters outside \<^verbatim>\<open>[a-z0-9_-]\<close> replaced
  by one dash. Strings are byte strings here; the function is exact on ASCII names.
\<close>

definition to_lower :: "char \<Rightarrow> char" where
  "to_lower c =
     (if 65 \<le> (of_char c :: nat) \<and> (of_char c :: nat) \<le> 90
      then char_of ((of_char c :: nat) + 32) else c)"

definition slug_char :: "char \<Rightarrow> bool" where
  "slug_char c \<longleftrightarrow>
     (97 \<le> (of_char c :: nat) \<and> (of_char c :: nat) \<le> 122) \<or> is_digit c
     \<or> c = CHR ''_'' \<or> c = CHR ''-''"

function collapse :: "string \<Rightarrow> string" where
  "collapse [] = []"
| "collapse (c # cs) =
     (if slug_char c then c # collapse cs
      else CHR ''-'' # collapse (dropWhile (\<lambda>d. \<not> slug_char d) cs))"
  by pat_completeness auto
termination
  by (relation "measure length") (auto simp: less_Suc_eq_le length_dropWhile_le)

definition slug :: "string \<Rightarrow> string" where
  "slug nm = collapse (map to_lower nm)"

text \<open>The labels \<^verbatim>\<open>Array(n).fill('')\<close>.\<close>

definition blank_labels :: "nat \<Rightarrow> string list" where
  "blank_labels n = replicate n []"

text \<open>Step 1: the \<^verbatim>\<open>for (const apiName in this.charts)\<close> loop, over the keys given.\<close>

fun destroy_loop :: "surface \<Rightarrow> string list \<Rightarrow> string list \<Rightarrow> sparks \<Rightarrow> sparks" where
  "destroy_loop env visibleApiNames [] s = s"
| "destroy_loop env visibleApiNames (apiName # keys) s =
     destroy_loop env visibleApiNames keys
       (if apiName \<notin> set visibleApiNames then
          (case map_of (charts s) apiName of
             None \<Rightarrow> s
           | Some c \<Rightarrow>
               s\<lparr>destroyed := destroyed s @ [(c, destroy_ok env c)],
                 charts := AList.delete apiName (charts s)\<rparr>)
        else s)"

text \<open>
  Step 2: the \<^verbatim>\<open>this.filteredApis.forEach\<close> loop. An exception ends it and leaves the
  state as it is then.
\<close>

fun render_loop ::
  "surface \<Rightarrow> prim list entity list \<Rightarrow> sparks \<Rightarrow> sparks \<times> js_error option" where
  "render_loop env [] s = (s, None)"
| "render_loop env (api # rest) s =
     (let canvasId = ''spark-'' @ slug (name api)
      in if \<not> attached env canvasId then render_loop env rest s
         else
           (case chart_slot (charts s) (name api) of
              Absent \<Rightarrow>
                (if create_ok env canvasId
                 then render_loop env rest
                        (s\<lparr>charts := AList.update (name api)
                             (Chart canvasId (blank_labels (length (history api))) (history api))
                             (charts s)\<rparr>)
                 else (s, Some LibraryError))
            | Own existing \<Rightarrow>
                (case existing of
                   Chart el _ _ \<Rightarrow>
                     (let updated = Chart el (blank_labels (length (history api))) (history api);
                          s1 = s\<lparr>charts := AList.update (name api) updated (charts s)\<rparr>
                      in if update_ok env updated then render_loop env rest s1
                         else (s1, Some LibraryError)))
            | Inherited k \<Rightarrow> (s, Some TypeError)))"

text \<open>The body of the loop of step 2, for one entity.\<close>

definition render_one :: "surface \<Rightarrow> prim list entity \<Rightarrow> sparks \<Rightarrow> sparks \<times> js_error option" where
  "render_one env api s = render_loop env [api] s"

definition updateSparklines ::
  "surface \<Rightarrow> prim list entity list \<Rightarrow> sparks \<Rightarrow> sparks \<times> js_error option" where
  "updateSparklines env filteredApis s =
     (let visibleApiNames = map name filteredApis;
          s1 = destroy_loop env visibleApiNames (map fst (charts s)) s
      in render_loop env filteredApis s1)"

definition handle_keys :: "sparks \<Rightarrow> string set" where
  "handle_keys s = fst ` set (charts s)"

text \<open>Cards and surfaces for the examples.\<close>

definition card_auth :: "prim list entity" where
  "card_auth = \<lparr>name = ''Auth Service'', uu_order = Prim Undefined, payload = [Num (Fin 0.3)]\<rparr>"

definition card_db :: "prim list entity" where
  "card_db = \<lparr>name = ''db'', uu_order = Prim Undefined, payload = [Num (Fin 0.1)]\<rparr>"

definition no_canvas :: surface where
  "no_canvas = \<lparr>attached = (\<lambda>i. False), create_ok = (\<lambda>i. True), update_ok = (\<lambda>c. True),
                 destroy_ok = (\<lambda>c. True)\<rparr>"

definition auth_canvas :: surface where
  "auth_canvas = \<lparr>attached = (\<lambda>i. i = ''spark-auth-service''), create_ok = (\<lambda>i. True),
                   update_ok = (\<lambda>c. True), destroy_ok = (\<lambda>c. False)\<rparr>"

definition one_old_chart :: sparks where
  "one_old_chart = \<lparr>charts = [(''old'', Chart ''spark-old'' [] [])], destroyed = []\<rparr>"

text \<open>Entities for the examples.\<close>

definition api_A :: "unit entity" where
  "api_A = \<lparr>name = ''A'', uu_order = Prim Undefined, payload = ()\<rparr>"

definition api_B :: "unit entity" where
  "api_B = \<lparr>name = ''B'', uu_order = Prim Undefined, payload = ()\<rparr>"

definition api_constructor :: "unit entity" where
  "api_constructor = \<lparr>name = ''constructor'', uu_order = Prim Undefined, payload = ()\<rparr>"

definition api_length :: "unit entity" where
  "api_length = \<lparr>name = ''length'', uu_order = Prim Undefined, payload = ()\<rparr>"

definition api_7 :: "unit entity" where
  "api_7 = \<lparr>name = ''7'', uu_order = Prim Undefined, payload = ()\<rparr>"

text \<open>Two entities for the examples: a short history, and one longer than a day's window.\<close>

definition example_heap :: heap where
  "example_heap =
     [ArrayCell [HPrim (Num (Fin 0.31)), HPrim (Num (Fin 0.7)), HPrim Null],
      ArrayCell [HPrim (Str ''10:00''), HPrim (Str ''10:05''), HPrim (Str ''10:10'')],
      ArrayCell [HPrim (Bool True), HPrim (Bool True), HPrim (Bool False)],
      ArrayCell [HPrim (Num (Fin 200)), HPrim (Num (Fin 200)), HPrim (Num (Fin 0))],
      ObjectCell [(''name'', HPrim (Str ''auth'')), (''history'', HRef 0),
                  (''history_ts'', HRef 1), (''history_ok'', HRef 2),
                  (''history_status'', HRef 3)]]"

definition long_heap :: heap where
  "long_heap =
     [ArrayCell (map (\<lambda>i. HPrim (Num (Fin (real i)))) [0..<22]),
      ArrayCell (map (\<lambda>i. HPrim (Str (replicate i CHR ''t''))) [0..<22]),
      ArrayCell (map (\<lambda>i. HPrim (Bool (even i))) [0..<22]),
      ArrayCell (map (\<lambda>i. HPrim (Num (Fin (200 + real i)))) [0..<22]),
      ObjectCell [(''name'', HPrim (Str ''auth'')), (''history'', HRef 0),
                  (''history_ts'', HRef 1), (''history_ok'', HRef 2),
                  (''history_status'', HRef 3)]]"

text \<open>An entity with a history of five samples and no other history array.\<close>

definition ragged_heap :: heap where
  "ragged_heap =
     [ObjectCell [(''name'', HPrim (Str ''auth'')), (''history'', HRef 1)],
      ArrayCell [HPrim (Num (Fin 0.2)), HPrim (Num (Fin 0.3)), HPrim (Num (Fin 0.7)),
                 HPrim (Num (Fin 0.4)), HPrim (Num (Fin 0.1))]]"

section \<open>Tooltip placement (C2)\<close>

lemma updateTooltipPos_x:
  "tt_x (updateTooltipPos (Some el) window evt tooltip) =
     (if clientX evt + 16 + offsetWidth el > innerWidth window
      then clientX evt - offsetWidth el - 16 else clientX evt + 16)"
  by (simp add: updateTooltipPos_def offset_def Let_def)

lemma updateTooltipPos_y:
  "tt_y (updateTooltipPos (Some el) window evt tooltip) =
     (if clientY evt + 16 + offsetHeight el > innerHeight window
      then clientY evt - offsetHeight el - 16 else clientY evt + 16)"
  by (simp add: updateTooltipPos_def offset_def Let_def)

text \<open>
  C2, as stated, fails: in a viewport 400 wide, a tooltip 300 wide and a pointer at
  \<open>x = 200\<close>, the default placement overflows on the right (\<open>200 + 16 + 300 > 400\<close>), the
  flip puts the left edge at \<open>200 - 300 - 16 = -116\<close>, outside the viewport, although the
  tooltip is no larger than the viewport.
\<close>

theorem tooltip_containment_counterexample:
  "offsetWidth \<lparr>offsetWidth = 300, offsetHeight = 100\<rparr>
     \<le> innerWidth \<lparr>innerWidth = 400, innerHeight = 700\<rparr> \<and>
   offsetHeight \<lparr>offsetWidth = 300, offsetHeight = 100\<rparr>
     \<le> innerHeight \<lparr>innerWidth = 400, innerHeight = 700\<rparr> \<and>
   tt_x (updateTooltipPos (Some \<lparr>offsetWidth = 300, offsetHeight = 100\<rparr>)
           \<lparr>innerWidth = 400, innerHeight = 700\<rparr> \<lparr>clientX = 200, clientY = 50\<rparr>
           (tooltip0 :: unit tooltip)) = - 116 \<and>
   \<not> contained \<lparr>innerWidth = 400, innerHeight = 700\<rparr> \<lparr>offsetWidth = 300, offsetHeight = 100\<rparr>
       (updateTooltipPos (Some \<lparr>offsetWidth = 300, offsetHeight = 100\<rparr>)
           \<lparr>innerWidth = 400, innerHeight = 700\<rparr> \<lparr>clientX = 200, clientY = 50\<rparr>
           (tooltip0 :: unit tooltip))"
  by (simp add: contained_def updateTooltipPos_x updateTooltipPos_y)

text \<open>
  C2, amended: for every pointer position inside the viewport and every tooltip size,
  the placement computed by \<^verbatim>\<open>updateTooltipPos\<close> keeps the tooltip within
  \<open>[0, viewportWidth] \<times> [0, viewportHeight]\<close> provided that, on each axis on which the
  default placement overflows, the pointer is at least the tooltip's size plus 16 away
  from the near edge, so that the flipped tooltip has room.
\<close>

theorem tooltip_containment_amended:
  assumes "0 \<le> clientX evt" and "clientX evt \<le> innerWidth window"
    and "0 \<le> clientY evt" and "clientY evt \<le> innerHeight window"
    and "clientX evt + 16 + offsetWidth el > innerWidth window
           \<longrightarrow> offsetWidth el + 16 \<le> clientX evt"
    and "clientY evt + 16 + offsetHeight el > innerHeight window
           \<longrightarrow> offsetHeight el + 16 \<le> clientY evt"
  shows "contained window el (updateTooltipPos (Some el) window evt tooltip)"
  using assms unfolding contained_def updateTooltipPos_x updateTooltipPos_y
  by auto

theorem tooltip_containment_amended_witness:
  "contained \<lparr>innerWidth = 1280, innerHeight = 720\<rparr> \<lparr>offsetWidth = 300, offsetHeight = 100\<rparr>
     (updateTooltipPos (Some \<lparr>offsetWidth = 300, offsetHeight = 100\<rparr>)
        \<lparr>innerWidth = 1280, innerHeight = 720\<rparr> \<lparr>clientX = 1275, clientY = 10\<rparr>
        (tooltip0 :: unit tooltip)) \<and>
   tt_x (updateTooltipPos (Some \<lparr>offsetWidth = 300, offsetHeight = 100\<rparr>)
        \<lparr>innerWidth = 1280, innerHeight = 720\<rparr> \<lparr>clientX = 1275, clientY = 10\<rparr>
        (tooltip0 :: unit tooltip)) = 1275 - 300 - 16"
  using tooltip_containment_amended
    [of "\<lparr>clientX = 1275, clientY = 10\<rparr>" "\<lparr>innerWidth = 1280, innerHeight = 720\<rparr>"
        "\<lparr>offsetWidth = 300, offsetHeight = 100\<rparr>" "tooltip0 :: unit tooltip"]
  by (simp add: updateTooltipPos_x)

section \<open>History window (C3, C4, C10)\<close>

lemma array_of_old: "valid_ref h v \<Longrightarrow> array_of (h @ h') v = array_of h v"
  by (cases v) (simp_all add: array_of_def valid_ref_def nth_append)

lemma field_old: "valid_ref h v \<Longrightarrow> field (h @ h') v f = field h v f"
  by (cases v) (simp_all add: field_def valid_ref_def nth_append)

lemma well_formed_api: "well_formed h api \<Longrightarrow> valid_ref h api"
  by (cases api) (simp_all add: well_formed_def valid_ref_def)

lemma well_formed_field: "well_formed h api \<Longrightarrow> valid_ref h (field h api f)"
  by (cases api)
     (auto simp: well_formed_def valid_ref_def field_def list_all_iff
           split: cell.splits option.splits dest!: map_of_SomeD)

lemma copy_or_empty_eq: "copy_or_empty h v = (h @ [ArrayCell (grab h v)], length h)"
  by (simp add: copy_or_empty_def alloc_array_def grab_def)

lemma slice_from_eq:
  "slice_from h a start = (h @ [ArrayCell (drop (nat start) (elements h a))], length h)"
  by (simp add: slice_from_def alloc_array_def)

lemma source_truthy: "truthy api \<Longrightarrow> source h api f = grab h (field h api f)"
  by (simp add: source_def grab_def)

lemma source_falsy: "\<not> truthy api \<Longrightarrow> source h api f = []"
  by (simp add: source_def)

lemma grab_field_old:
  "well_formed h api \<Longrightarrow> grab (h @ h') (field (h @ h') api f) = grab h (field h api f)"
  by (simp add: grab_def field_old array_of_old well_formed_api well_formed_field)

lemma nat_start: "nat (max 0 (int a - int b)) = a - b"
  by (simp add: max_def) linarith

lemma elements_fresh:
  assumes "4 \<le> length cs"
  shows "elements (h @ cs) (length h) = (case cs ! 0 of ArrayCell xs \<Rightarrow> xs | ObjectCell _ \<Rightarrow> [])"
    and "elements (h @ cs) (Suc (length h)) = (case cs ! 1 of ArrayCell xs \<Rightarrow> xs | ObjectCell _ \<Rightarrow> [])"
    and "elements (h @ cs) (Suc (Suc (length h))) =
           (case cs ! 2 of ArrayCell xs \<Rightarrow> xs | ObjectCell _ \<Rightarrow> [])"
    and "elements (h @ cs) (Suc (Suc (Suc (length h)))) =
           (case cs ! 3 of ArrayCell xs \<Rightarrow> xs | ObjectCell _ \<Rightarrow> [])"
  using assms by (auto simp: elements_def array_of_def nth_append split: cell.splits)

lemma historySlice_falsy:
  "\<not> truthy api \<Longrightarrow> historySlice tr h api =
     (h @ [ArrayCell [], ArrayCell [], ArrayCell [], ArrayCell []],
      \<lparr>sl_values = length h, sl_labels = length h + 1, sl_ok = length h + 2,
       sl_status = length h + 3\<rparr>)"
  by (simp add: historySlice_def alloc_array_def)

text \<open>
  What a call on a present entity allocates: the four copies, then the four windows, all
  cut at the one \<open>start\<close> computed from the length of the copy of \<^verbatim>\<open>history\<close>.
\<close>

lemma historySlice_truthy:
  fixes h :: heap and api :: hval and tr :: string
  assumes "truthy api"
  defines "A \<equiv> grab h (field h api ''history'')"
  defines "h1 \<equiv> h @ [ArrayCell A]"
  defines "B \<equiv> grab h1 (field h1 api ''history_ts'')"
  defines "h2 \<equiv> h1 @ [ArrayCell B]"
  defines "C \<equiv> grab h2 (field h2 api ''history_ok'')"
  defines "h3 \<equiv> h2 @ [ArrayCell C]"
  defines "D \<equiv> grab h3 (field h3 api ''history_status'')"
  defines "start \<equiv> length A - window_size tr"
  shows "historySlice tr h api =
     (h @ [ArrayCell A, ArrayCell B, ArrayCell C, ArrayCell D,
           ArrayCell (drop start A), ArrayCell (drop start B),
           ArrayCell (drop start C), ArrayCell (drop start D)],
      \<lparr>sl_values = length h + 4, sl_labels = length h + 5, sl_ok = length h + 6,
       sl_status = length h + 7\<rparr>)"
  using assms(1)
  unfolding historySlice_def copy_or_empty_eq slice_from_eq Let_def split_def fst_conv snd_conv
    A_def [symmetric] h1_def [symmetric] B_def [symmetric] h2_def [symmetric]
    C_def [symmetric] h3_def [symmetric] D_def [symmetric]
  by (simp add: h1_def h2_def h3_def elements_fresh start_def nat_start)

lemma elements_at:
  "k < length cs \<Longrightarrow> elements (h @ cs) (length h + k) =
      (case cs ! k of ArrayCell xs \<Rightarrow> xs | ObjectCell _ \<Rightarrow> [])"
  by (auto simp: elements_def array_of_def nth_append split: cell.splits)

lemma slice_values_eq:
  "slice_values tr h api =
     drop (length (source h api ''history'') - window_size tr) (source h api ''history'')"
proof (cases "truthy api")
  case True
  show ?thesis
    using elements_at [of 4 _ h]
    by (simp add: slice_values_def historySlice_truthy [OF True] source_truthy [OF True])
next
  case False
  then show ?thesis
    using elements_at [of 0 _ h]
    by (simp add: slice_values_def historySlice_falsy source_falsy)
qed

lemma slice_others_eq:
  fixes h :: heap and api :: hval and tr :: string
  assumes "well_formed h api"
  defines "start \<equiv> length (source h api ''history'') - window_size tr"
  shows "slice_labels tr h api = drop start (source h api ''history_ts'')"
    and "slice_ok tr h api = drop start (source h api ''history_ok'')"
    and "slice_status tr h api = drop start (source h api ''history_status'')"
proof -
  show "slice_labels tr h api = drop start (source h api ''history_ts'')"
  proof (cases "truthy api")
    case True
    show ?thesis
      using elements_at [of 5 _ h]
      by (simp add: slice_labels_def historySlice_truthy [OF True] source_truthy [OF True]
            grab_field_old [OF assms(1)] start_def)
  next
    case False
    then show ?thesis
      using elements_at [of 1 _ h]
      by (simp add: slice_labels_def historySlice_falsy source_falsy)
  qed
  show "slice_ok tr h api = drop start (source h api ''history_ok'')"
  proof (cases "truthy api")
    case True
    show ?thesis
      using elements_at [of 6 _ h] grab_field_old [OF assms(1), of "[c1, c2]" for c1 c2]
      by (simp add: slice_ok_def historySlice_truthy [OF True] source_truthy [OF True]
            grab_field_old [OF assms(1)] start_def)
  next
    case False
    then show ?thesis
      using elements_at [of 2 _ h]
      by (simp add: slice_ok_def historySlice_falsy source_falsy)
  qed
  show "slice_status tr h api = drop start (source h api ''history_status'')"
  proof (cases "truthy api")
    case True
    show ?thesis
      using elements_at [of 7 _ h] grab_field_old [OF assms(1), of "[c1, c2]" for c1 c2]
         grab_field_old [OF assms(1), of "[c1, c2, c3]" for c1 c2 c3]
      by (simp add: slice_status_def historySlice_truthy [OF True] source_truthy [OF True]
            grab_field_old [OF assms(1)] start_def)
  next
    case False
    then show ?thesis
      using elements_at [of 3 _ h]
      by (simp add: slice_status_def historySlice_falsy source_falsy)
  qed
qed


text \<open>
  C3: for every entity, \<^verbatim>\<open>historySlice\<close> under the time range \<open>24h\<close> returns at most 20
  samples, under \<open>7d\<close> at most 40, and under \<open>30d\<close> or any unrecognised range at most 60;
  when the entity's history is no longer than the bound, it returns exactly the full
  history, unpadded. The function is total: an absent entity, and absent or non-array
  history fields, give empty arrays and no error. The bound on \<^verbatim>\<open>values\<close> holds for every
  input; \<^verbatim>\<open>labels\<close>, \<^verbatim>\<open>ok\<close> and \<^verbatim>\<open>status\<close> are cut at the start index computed
  from \<^verbatim>\<open>history\<close>, so their bound is the data model's invariant that the four arrays
  have one length.
\<close>

theorem historySlice_window_bound:
  "window_size ''24h'' = 20 \<and> window_size ''7d'' = 40 \<and> window_size ''30d'' = 60 \<and>
   window_size tr = (if tr = ''24h'' then 20 else if tr = ''7d'' then 40 else 60) \<and>
   length (slice_values tr h api) \<le> window_size tr \<and>
   (length (source h api ''history'') \<le> window_size tr \<longrightarrow>
      slice_values tr h api = source h api ''history'') \<and>
   (well_formed h api \<and> aligned h api \<longrightarrow>
      length (slice_labels tr h api) \<le> window_size tr \<and>
      length (slice_ok tr h api) \<le> window_size tr \<and>
      length (slice_status tr h api) \<le> window_size tr \<and>
      (length (source h api ''history'') \<le> window_size tr \<longrightarrow>
         slice_labels tr h api = source h api ''history_ts'' \<and>
         slice_ok tr h api = source h api ''history_ok'' \<and>
         slice_status tr h api = source h api ''history_status''))"
proof -
  have w: "window_size ''24h'' = 20 \<and> window_size ''7d'' = 40 \<and> window_size ''30d'' = 60 \<and>
      window_size tr = (if tr = ''24h'' then 20 else if tr = ''7d'' then 40 else 60)"
    by (simp add: window_size_def)
  have v: "length (slice_values tr h api) \<le> window_size tr"
    by (simp add: slice_values_eq)
  have f: "slice_values tr h api = source h api ''history''"
    if "length (source h api ''history'') \<le> window_size tr"
    using that by (simp add: slice_values_eq)
  have o: "length (slice_labels tr h api) \<le> window_size tr \<and>
      length (slice_ok tr h api) \<le> window_size tr \<and>
      length (slice_status tr h api) \<le> window_size tr \<and>
      (length (source h api ''history'') \<le> window_size tr \<longrightarrow>
         slice_labels tr h api = source h api ''history_ts'' \<and>
         slice_ok tr h api = source h api ''history_ok'' \<and>
         slice_status tr h api = source h api ''history_status'')"
    if "well_formed h api" and "aligned h api"
    using that(2) by (simp add: slice_others_eq [OF that(1)] aligned_def)
  from w v f o show ?thesis by blast
qed

lemma example_sources:
  "source example_heap (HRef 4) ''history'' = [HPrim (Num (Fin 0.31)), HPrim (Num (Fin 0.7)), HPrim Null]"
  "source example_heap (HRef 4) ''history_ts'' = [HPrim (Str ''10:00''), HPrim (Str ''10:05''), HPrim (Str ''10:10'')]"
  "source example_heap (HRef 4) ''history_ok'' = [HPrim (Bool True), HPrim (Bool True), HPrim (Bool False)]"
  "source example_heap (HRef 4) ''history_status'' = [HPrim (Num (Fin 200)), HPrim (Num (Fin 200)), HPrim (Num (Fin 0))]"
  by (simp_all add: source_def example_heap_def truthy_def field_def array_of_def)

lemma example_well_formed: "well_formed example_heap (HRef 4)"
  by (simp add: well_formed_def example_heap_def valid_ref_def)

lemma example_aligned: "aligned example_heap (HRef 4)"
  by (simp add: aligned_def example_sources)

theorem historySlice_window_bound_witness:
  "length (source example_heap (HRef 4) ''history'') \<le> window_size ''24h'' \<and>
   well_formed example_heap (HRef 4) \<and> aligned example_heap (HRef 4) \<and>
   slice_values ''24h'' example_heap (HRef 4) =
     [HPrim (Num (Fin 0.31)), HPrim (Num (Fin 0.7)), HPrim Null] \<and>
   slice_labels ''24h'' example_heap (HRef 4) =
     [HPrim (Str ''10:00''), HPrim (Str ''10:05''), HPrim (Str ''10:10'')] \<and>
   slice_ok ''24h'' example_heap (HRef 4) =
     [HPrim (Bool True), HPrim (Bool True), HPrim (Bool False)] \<and>
   slice_status ''24h'' example_heap (HRef 4) =
     [HPrim (Num (Fin 200)), HPrim (Num (Fin 200)), HPrim (Num (Fin 0))]"
  using historySlice_window_bound [of "''24h''" example_heap "HRef 4"]
  by (simp add: example_sources example_well_formed example_aligned)

lemma ragged_sources:
  "source ragged_heap (HRef 0) ''history'' =
     [HPrim (Num (Fin 0.2)), HPrim (Num (Fin 0.3)), HPrim (Num (Fin 0.7)),
      HPrim (Num (Fin 0.4)), HPrim (Num (Fin 0.1))]"
  "source ragged_heap (HRef 0) ''history_ts'' = []"
  by (simp_all add: source_def ragged_heap_def truthy_def field_def array_of_def)

lemma ragged_well_formed: "well_formed ragged_heap (HRef 0)"
  by (simp add: well_formed_def ragged_heap_def valid_ref_def)

text \<open>
  C4, as stated, fails: an entity with five samples in \<^verbatim>\<open>history\<close> and no
  \<^verbatim>\<open>history_ts\<close> (absent, so treated as empty) gets five \<^verbatim>\<open>values\<close> and no
  \<^verbatim>\<open>labels\<close>: the returned arrays are not equal in length. The start index is computed
  from \<^verbatim>\<open>history\<close> alone, and \<^verbatim>\<open>historyBars\<close> pads what is missing
  (\<^verbatim>\<open>slice.labels[i] || ""\<close>, \<^verbatim>\<open>slice.status[i] || 0\<close>).
\<close>

theorem historySlice_unequal_lengths:
  "well_formed ragged_heap (HRef 0) \<and>
   length (slice_values ''24h'' ragged_heap (HRef 0)) = 5 \<and>
   length (slice_labels ''24h'' ragged_heap (HRef 0)) = 0 \<and>
   length (slice_labels ''24h'' ragged_heap (HRef 0))
     \<noteq> length (slice_values ''24h'' ragged_heap (HRef 0))"
  by (simp add: ragged_well_formed slice_values_eq slice_others_eq [OF ragged_well_formed]
        ragged_sources window_size_def)

text \<open>
  C4, amended: for every entity, the four arrays \<^verbatim>\<open>values\<close>, \<^verbatim>\<open>labels\<close>, \<^verbatim>\<open>ok\<close>,
  \<^verbatim>\<open>status\<close> returned by \<^verbatim>\<open>historySlice\<close> are index-aligned, with absent source arrays
  treated as empty: all four are cut at the one start index computed from \<^verbatim>\<open>history\<close>,
  so the \<open>i\<close>-th element of each, where the array has one, is the sample at index
  \<open>start + i\<close> of its source array, and each has the length of its source array less
  \<open>start\<close>. They are equal in length when the four source arrays are.
\<close>

theorem historySlice_index_aligned:
  fixes h :: heap and api :: hval and tr :: string
  assumes "well_formed h api"
  defines "start \<equiv> length (source h api ''history'') - window_size tr"
  shows "(\<forall>i. (i < length (slice_values tr h api) \<longrightarrow>
                slice_values tr h api ! i = source h api ''history'' ! (start + i)) \<and>
             (i < length (slice_labels tr h api) \<longrightarrow>
                slice_labels tr h api ! i = source h api ''history_ts'' ! (start + i)) \<and>
             (i < length (slice_ok tr h api) \<longrightarrow>
                slice_ok tr h api ! i = source h api ''history_ok'' ! (start + i)) \<and>
             (i < length (slice_status tr h api) \<longrightarrow>
                slice_status tr h api ! i = source h api ''history_status'' ! (start + i))) \<and>
         length (slice_values tr h api) = length (source h api ''history'') - start \<and>
         length (slice_labels tr h api) = length (source h api ''history_ts'') - start \<and>
         length (slice_ok tr h api) = length (source h api ''history_ok'') - start \<and>
         length (slice_status tr h api) = length (source h api ''history_status'') - start \<and>
         (aligned h api \<longrightarrow>
            length (slice_labels tr h api) = length (slice_values tr h api) \<and>
            length (slice_ok tr h api) = length (slice_values tr h api) \<and>
            length (slice_status tr h api) = length (slice_values tr h api))"
  by (simp add: slice_values_eq slice_others_eq [OF assms(1)] aligned_def start_def)

lemma long_sources:
  "source long_heap (HRef 4) ''history'' = map (\<lambda>i. HPrim (Num (Fin (real i)))) [0..<22]"
  "source long_heap (HRef 4) ''history_ts'' = map (\<lambda>i. HPrim (Str (replicate i CHR ''t''))) [0..<22]"
  "source long_heap (HRef 4) ''history_ok'' = map (\<lambda>i. HPrim (Bool (even i))) [0..<22]"
  "source long_heap (HRef 4) ''history_status'' = map (\<lambda>i. HPrim (Num (Fin (200 + real i)))) [0..<22]"
  by (simp_all add: source_def long_heap_def truthy_def field_def array_of_def)

theorem historySlice_index_aligned_witness:
  "well_formed long_heap (HRef 4) \<and> aligned long_heap (HRef 4) \<and>
   length (slice_values ''24h'' long_heap (HRef 4)) = 20 \<and>
   length (slice_labels ''24h'' long_heap (HRef 4)) = 20 \<and>
   length (slice_ok ''24h'' long_heap (HRef 4)) = 20 \<and>
   length (slice_status ''24h'' long_heap (HRef 4)) = 20 \<and>
   slice_values ''24h'' long_heap (HRef 4) ! 0 = HPrim (Num (Fin 2)) \<and>
   slice_labels ''24h'' long_heap (HRef 4) ! 0 = HPrim (Str ''tt'') \<and>
   slice_ok ''24h'' long_heap (HRef 4) ! 0 = HPrim (Bool True) \<and>
   slice_status ''24h'' long_heap (HRef 4) ! 0 = HPrim (Num (Fin 202))"
proof -
  have wf: "well_formed long_heap (HRef 4)"
    by (simp add: well_formed_def long_heap_def valid_ref_def)
  have al: "aligned long_heap (HRef 4)"
    by (simp add: aligned_def long_sources)
  have len: "length (slice_values ''24h'' long_heap (HRef 4)) = 20"
    by (simp add: slice_values_eq long_sources window_size_def)
  note t = historySlice_index_aligned [OF wf, of "''24h''"]
  from t al have eq: "length (slice_labels ''24h'' long_heap (HRef 4)) = 20"
    "length (slice_ok ''24h'' long_heap (HRef 4)) = 20"
    "length (slice_status ''24h'' long_heap (HRef 4)) = 20"
    unfolding len [symmetric] by blast+
  from t have ix: "(0 < length (slice_values ''24h'' long_heap (HRef 4)) \<longrightarrow>
                slice_values ''24h'' long_heap (HRef 4) ! 0 = source long_heap (HRef 4) ''history'' !
                  (length (source long_heap (HRef 4) ''history'') - window_size ''24h'' + 0)) \<and>
             (0 < length (slice_labels ''24h'' long_heap (HRef 4)) \<longrightarrow>
                slice_labels ''24h'' long_heap (HRef 4) ! 0 = source long_heap (HRef 4) ''history_ts'' !
                  (length (source long_heap (HRef 4) ''history'') - window_size ''24h'' + 0)) \<and>
             (0 < length (slice_ok ''24h'' long_heap (HRef 4)) \<longrightarrow>
                slice_ok ''24h'' long_heap (HRef 4) ! 0 = source long_heap (HRef 4) ''history_ok'' !
                  (length (source long_heap (HRef 4) ''history'') - window_size ''24h'' + 0)) \<and>
             (0 < length (slice_status ''24h'' long_heap (HRef 4)) \<longrightarrow>
                slice_status ''24h'' long_heap (HRef 4) ! 0 = source long_heap (HRef 4) ''history_status'' !
                  (length (source long_heap (HRef 4) ''history'') - window_size ''24h'' + 0))"
    by blast
  have v: "slice_values ''24h'' long_heap (HRef 4) ! 0 = HPrim (Num (Fin 2))"
    "slice_labels ''24h'' long_heap (HRef 4) ! 0 = HPrim (Str ''tt'')"
    "slice_ok ''24h'' long_heap (HRef 4) ! 0 = HPrim (Bool True)"
    "slice_status ''24h'' long_heap (HRef 4) ! 0 = HPrim (Num (Fin 202))"
    using ix unfolding len eq by (simp_all add: long_sources window_size_def)
  from wf al len eq v show ?thesis by simp
qed


text \<open>
  C10: \<^verbatim>\<open>historySlice\<close> never mutates its input: every cell of the heap before the call
  (the entity object with all its fields, and its history arrays) is the same after the
  call, and the four returned arrays are distinct, freshly allocated cells.
\<close>

theorem historySlice_no_mutation:
  "take (length h) (fst (historySlice tr h api)) = h \<and>
   length h \<le> sl_values (snd (historySlice tr h api)) \<and>
   length h \<le> sl_labels (snd (historySlice tr h api)) \<and>
   length h \<le> sl_ok (snd (historySlice tr h api)) \<and>
   length h \<le> sl_status (snd (historySlice tr h api)) \<and>
   sl_values (snd (historySlice tr h api)) < length (fst (historySlice tr h api)) \<and>
   sl_labels (snd (historySlice tr h api)) < length (fst (historySlice tr h api)) \<and>
   sl_ok (snd (historySlice tr h api)) < length (fst (historySlice tr h api)) \<and>
   sl_status (snd (historySlice tr h api)) < length (fst (historySlice tr h api)) \<and>
   distinct [sl_values (snd (historySlice tr h api)), sl_labels (snd (historySlice tr h api)),
             sl_ok (snd (historySlice tr h api)), sl_status (snd (historySlice tr h api))]"
proof (cases "truthy api")
  case True
  show ?thesis by (simp add: historySlice_truthy [OF True])
next
  case False
  then show ?thesis by (simp add: historySlice_falsy)
qed


section \<open>Order registry (C1, C5, C8)\<close>

lemma cls_set_prop: "cls (set_prop ob k v) = cls ob"
  by (simp add: set_prop_def)

lemma get_prop_set_same: "get_prop (set_prop ob k v) k = v"
  by (simp add: get_prop_def set_prop_def update_conv')

lemma get_prop_set_other:
  assumes "k' \<noteq> k" and "cls ob \<noteq> ArrayObject"
  shows "get_prop (set_prop ob k v) k' = get_prop ob k'"
proof -
  have m: "map_of (AList.update k v (props ob)) k' = map_of (props ob) k'"
    using assms(1) by (simp add: update_conv')
  have i: "inherited (cls ob) (AList.update k v (props ob)) k' = inherited (cls ob) (props ob) k'"
    using assms(2) by (cases "cls ob") (simp_all add: inherited_def)
  show ?thesis
    by (cases "map_of (props ob) k'") (simp_all add: get_prop_def set_prop_def m i)
qed


lemma not_nullish_num: "\<not> is_nullish (Prim (Num n))"
  by (simp add: is_nullish_def)

lemma stamp_Cons:
  "stamp st (api # rest) =
     (fst (stamp (assign_rank st api) rest),
      api\<lparr>uu_order := get_prop (orderMap (assign_rank st api)) (name api)\<rparr>
        # snd (stamp (assign_rank st api) rest))"
  by (simp add: assign_rank_def Let_def split_def)

lemma assign_rank_cls: "cls (orderMap (assign_rank st api)) = cls (orderMap st)"
  by (simp add: assign_rank_def cls_set_prop)

lemma assign_rank_keeps:
  "cls (orderMap st) \<noteq> ArrayObject \<Longrightarrow> \<not> is_nullish (get_prop (orderMap st) k) \<Longrightarrow>
     get_prop (orderMap (assign_rank st api)) k = get_prop (orderMap st) k"
proof (cases "is_nullish (get_prop (orderMap st) (name api))")
  case True
  assume a: "cls (orderMap st) \<noteq> ArrayObject" "\<not> is_nullish (get_prop (orderMap st) k)"
  with True have "k \<noteq> name api" by auto
  with a True show ?thesis by (simp add: assign_rank_def get_prop_set_other)
next
  case False
  then show ?thesis by (simp add: assign_rank_def)
qed

lemma assign_rank_known: "\<not> is_nullish (get_prop (orderMap (assign_rank st api)) (name api))"
  by (simp add: assign_rank_def get_prop_set_same not_nullish_num)

declare stamp.simps(2) [simp del]

lemma stamp_cls: "cls (orderMap (fst (stamp st xs))) = cls (orderMap st)"
  by (induction xs arbitrary: st) (simp_all add: stamp_Cons assign_rank_cls)

lemma stamp_keeps:
  "cls (orderMap st) \<noteq> ArrayObject \<Longrightarrow> \<not> is_nullish (get_prop (orderMap st) k) \<Longrightarrow>
     get_prop (orderMap (fst (stamp st xs))) k = get_prop (orderMap st) k"
proof (induction xs arbitrary: st)
  case Nil
  then show ?case by simp
next
  case (Cons x xs)
  have c: "cls (orderMap (assign_rank st x)) \<noteq> ArrayObject"
    using Cons.prems(1) by (simp add: assign_rank_cls)
  have g: "get_prop (orderMap (assign_rank st x)) k = get_prop (orderMap st) k"
    using Cons.prems by (rule assign_rank_keeps)
  from Cons.prems(2) g have "\<not> is_nullish (get_prop (orderMap (assign_rank st x)) k)"
    by simp
  from Cons.IH [OF c this] g show ?case
    by (simp add: stamp_Cons)
qed

lemma stamp_ranks:
  "cls (orderMap st) \<noteq> ArrayObject \<Longrightarrow> a \<in> set (snd (stamp st xs)) \<Longrightarrow>
     uu_order a = get_prop (orderMap (fst (stamp st xs))) (name a) \<and> \<not> is_nullish (uu_order a)"
proof (induction xs arbitrary: st)
  case Nil
  then show ?case by simp
next
  case (Cons x xs)
  let ?st1 = "assign_rank st x"
  let ?x' = "x\<lparr>uu_order := get_prop (orderMap ?st1) (name x)\<rparr>"
  have c: "cls (orderMap ?st1) \<noteq> ArrayObject"
    using Cons.prems(1) by (simp add: assign_rank_cls)
  have n: "\<not> is_nullish (get_prop (orderMap ?st1) (name x))"
    by (rule assign_rank_known)
  have f: "fst (stamp st (x # xs)) = fst (stamp ?st1 xs)"
    by (simp add: stamp_Cons)
  from Cons.prems(2) have "a = ?x' \<or> a \<in> set (snd (stamp ?st1 xs))"
    by (simp add: stamp_Cons)
  then show ?case
  proof
    assume a: "a = ?x'"
    have "get_prop (orderMap (fst (stamp ?st1 xs))) (name x) = get_prop (orderMap ?st1) (name x)"
      using stamp_keeps [OF c n] .
    with n show ?thesis unfolding f a by simp
  next
    assume "a \<in> set (snd (stamp ?st1 xs))"
    from Cons.IH [OF c this] show ?thesis unfolding f .
  qed
qed

lemma insert_by_set: "insert_by tn a bs = Some r \<Longrightarrow> set r = insert a (set bs)"
proof (induction bs arbitrary: r)
  case Nil
  then show ?case by auto
next
  case (Cons b bs)
  from Cons.prems obtain c where c: "comparator tn a b = Some c"
    by (cases "comparator tn a b") simp_all
  show ?case
  proof (cases "is_positive c")
    case True
    with Cons.prems c obtain r' where r': "insert_by tn a bs = Some r'" "r = b # r'"
      by (cases "insert_by tn a bs") auto
    from Cons.IH [OF r'(1)] r'(2) show ?thesis by auto
  next
    case False
    with Cons.prems c show ?thesis by auto
  qed
qed

lemma sort_by_order_set: "sort_by_order tn xs = Some r \<Longrightarrow> set r = set xs"
proof (induction xs arbitrary: r)
  case Nil
  then show ?case by simp
next
  case (Cons x xs)
  from Cons.prems obtain r' where r': "sort_by_order tn xs = Some r'" "insert_by tn x r' = Some r"
    by (cases "sort_by_order tn xs") simp_all
  from insert_by_set [OF r'(2)] Cons.IH [OF r'(1)] show ?case by simp
qed

lemma ensureStableOrder_fst: "fst (ensureStableOrder tn st xs) = fst (stamp st xs)"
  by (simp add: ensureStableOrder_def split_def Let_def)

lemma ensureStableOrder_listed:
  "set (listed (snd (ensureStableOrder tn st xs))) = set (snd (stamp st xs))"
  by (auto simp: ensureStableOrder_def split_def Let_def split: option.splits dest: sort_by_order_set)

lemma session_Cons:
  "session tn st (snap # snaps) =
     snd (ensureStableOrder tn st snap) # session tn (fst (ensureStableOrder tn st snap)) snaps"
  by (simp add: split_def Let_def)

declare session.simps(2) [simp del]

lemma length_session: "length (session tn st snaps) = length snaps"
  by (induction snaps arbitrary: st) (simp_all add: session_Cons)

lemma session_known:
  "cls (orderMap st) \<noteq> ArrayObject \<Longrightarrow> k < length snaps \<Longrightarrow>
   b \<in> set (listed (session tn st snaps ! k)) \<Longrightarrow>
   \<not> is_nullish (get_prop (orderMap st) (name b)) \<Longrightarrow>
   uu_order b = get_prop (orderMap st) (name b)"
proof (induction snaps arbitrary: st k)
  case Nil
  then show ?case by simp
next
  case (Cons snap snaps)
  let ?st' = "fst (stamp st snap)"
  have c: "cls (orderMap ?st') \<noteq> ArrayObject"
    using Cons.prems(1) by (simp add: stamp_cls)
  have g: "get_prop (orderMap ?st') (name b) = get_prop (orderMap st) (name b)"
    using stamp_keeps [OF Cons.prems(1) Cons.prems(4)] .
  show ?case
  proof (cases k)
    case 0
    with Cons.prems(3) have "b \<in> set (snd (stamp st snap))"
      by (simp add: session_Cons ensureStableOrder_listed)
    from stamp_ranks [OF Cons.prems(1) this]
    have "uu_order b = get_prop (orderMap ?st') (name b)" by (rule conjunct1)
    then show ?thesis unfolding g .
  next
    case (Suc k')
    with Cons.prems(2,3) have k': "k' < length snaps"
      and b: "b \<in> set (listed (session tn ?st' snaps ! k'))"
      by (simp_all add: session_Cons ensureStableOrder_fst)
    from Cons.prems(4) have "\<not> is_nullish (get_prop (orderMap ?st') (name b))"
      unfolding g .
    from Cons.IH [OF c k' b this] show ?thesis unfolding g .
  qed
qed

lemma session_stable:
  "cls (orderMap st) \<noteq> ArrayObject \<Longrightarrow> i \<le> k \<Longrightarrow> k < length snaps \<Longrightarrow>
   a \<in> set (listed (session tn st snaps ! i)) \<Longrightarrow>
   b \<in> set (listed (session tn st snaps ! k)) \<Longrightarrow>
   name a = name b \<Longrightarrow> uu_order a = uu_order b"
proof (induction snaps arbitrary: st i k)
  case Nil
  then show ?case by simp
next
  case (Cons snap snaps)
  let ?st' = "fst (stamp st snap)"
  have c: "cls (orderMap ?st') \<noteq> ArrayObject"
    using Cons.prems(1) by (simp add: stamp_cls)
  show ?case
  proof (cases i)
    case 0
    with Cons.prems(4) have "a \<in> set (snd (stamp st snap))"
      by (simp add: session_Cons ensureStableOrder_listed)
    from stamp_ranks [OF Cons.prems(1) this]
    have a1: "uu_order a = get_prop (orderMap ?st') (name a)"
      and a2: "\<not> is_nullish (uu_order a)"
      by blast+
    from a2 have a3: "\<not> is_nullish (get_prop (orderMap ?st') (name b))"
      unfolding a1 Cons.prems(6) .
    have a4: "uu_order a = get_prop (orderMap ?st') (name b)"
      using a1 unfolding Cons.prems(6) .
    show ?thesis
    proof (cases k)
      case 0
      with Cons.prems(5) have "b \<in> set (snd (stamp st snap))"
        by (simp add: session_Cons ensureStableOrder_listed)
      from stamp_ranks [OF Cons.prems(1) this]
      have "uu_order b = get_prop (orderMap ?st') (name b)" by (rule conjunct1)
      with a4 show ?thesis by (rule trans [OF _ sym])
    next
      case (Suc k')
      with Cons.prems(3,5) have k': "k' < length snaps"
        and b: "b \<in> set (listed (session tn ?st' snaps ! k'))"
        by (simp_all add: session_Cons ensureStableOrder_fst)
      from session_known [OF c k' b a3] a4 show ?thesis by simp
    qed
  next
    case (Suc i')
    with Cons.prems(2) obtain k' where k: "k = Suc k'" "i' \<le> k'"
      by (cases k) simp_all
    with Suc Cons.prems(3,4,5) have k': "k' < length snaps"
      and a: "a \<in> set (listed (session tn ?st' snaps ! i'))"
      and b: "b \<in> set (listed (session tn ?st' snaps ! k'))"
      by (simp_all add: session_Cons ensureStableOrder_fst)
    from Cons.IH [OF c k(2) k' a b Cons.prems(6)] show ?thesis .
  qed
qed

lemma stamp_names_known:
  "cls (orderMap st) \<noteq> ArrayObject \<Longrightarrow> x \<in> set xs \<Longrightarrow>
     \<not> is_nullish (get_prop (orderMap (fst (stamp st xs))) (name x))"
proof (induction xs arbitrary: st)
  case Nil
  then show ?case by simp
next
  case (Cons y ys)
  let ?st1 = "assign_rank st y"
  have c: "cls (orderMap ?st1) \<noteq> ArrayObject"
    using Cons.prems(1) by (simp add: assign_rank_cls)
  have n: "\<not> is_nullish (get_prop (orderMap ?st1) (name y))"
    by (rule assign_rank_known)
  have f: "fst (stamp st (y # ys)) = fst (stamp ?st1 ys)"
    by (simp add: stamp_Cons)
  from Cons.prems(2) have "x = y \<or> x \<in> set ys" by auto
  then show ?case
  proof
    assume "x = y"
    with stamp_keeps [OF c n, of ys] n show ?thesis unfolding f by simp
  next
    assume "x \<in> set ys"
    from Cons.IH [OF c this] show ?thesis unfolding f .
  qed
qed


lemma stamp_noop:
  "(\<forall>x \<in> set xs. \<not> is_nullish (get_prop (orderMap st) (name x))) \<Longrightarrow> fst (stamp st xs) = st"
proof (induction xs)
  case Nil
  then show ?case by simp
next
  case (Cons x xs)
  then have "assign_rank st x = st" by (simp add: assign_rank_def)
  with Cons show ?case by (simp add: stamp_Cons)
qed

lemma stamp_again:
  assumes "cls (orderMap st) \<noteq> ArrayObject" and "name ` set ys \<subseteq> name ` set xs"
  shows "fst (stamp (fst (stamp st xs)) ys) = fst (stamp st xs)"
proof (rule stamp_noop, rule ballI)
  fix y assume "y \<in> set ys"
  with assms(2) obtain x where x: "x \<in> set xs" "name x = name y" by auto
  from stamp_names_known [OF assms(1) x(1)] x(2)
  show "\<not> is_nullish (get_prop (orderMap (fst (stamp st xs))) (name y))" by simp
qed

text \<open>
  Rank stability where the order map is an object without prototype (the initial one) or
  an ordinary object (one restored from a persisted JSON object): an entity name present
  in two snapshots receives the same rank in both, whatever its position in either array
  (and whether or not the sort of a call completes); and a repeated call whose names were
  all in an earlier call leaves the registry, hence every assigned rank, unchanged.
\<close>

lemma ensureStableOrder_stable:
  fixes st :: "'z registry_scheme" and snaps :: "'p entity list list"
  assumes "cls (orderMap st) \<noteq> ArrayObject"
  shows "(\<forall>i k a b. i \<le> k \<and> k < length snaps \<and>
            a \<in> set (listed (session tn st snaps ! i)) \<and>
            b \<in> set (listed (session tn st snaps ! k)) \<and> name a = name b
            \<longrightarrow> uu_order a = uu_order b) \<and>
         (\<forall>(xs :: 'p entity list) (ys :: 'p entity list). name ` set ys \<subseteq> name ` set xs \<longrightarrow>
            fst (ensureStableOrder tn (fst (ensureStableOrder tn st xs)) ys)
              = fst (ensureStableOrder tn st xs))"
proof -
  have 1: "uu_order a = uu_order b"
    if "i \<le> k" "k < length snaps" "a \<in> set (listed (session tn st snaps ! i))"
       "b \<in> set (listed (session tn st snaps ! k))" "name a = name b"
    for i k a b
    using session_stable [OF assms that] .
  have 2: "fst (ensureStableOrder tn (fst (ensureStableOrder tn st xs)) ys)
              = fst (ensureStableOrder tn st xs)"
    if "name ` set ys \<subseteq> name ` set xs" for xs ys :: "'p entity list"
    using assms that by (simp add: ensureStableOrder_fst stamp_again)
  from 1 2 show ?thesis by blast
qed

lemma example_session:
  "session tn registry0 [[api_A, api_B], [api_B, api_A]] =
     [Returns [api_A\<lparr>uu_order := Prim (Num (Fin 0))\<rparr>, api_B\<lparr>uu_order := Prim (Num (Fin 1))\<rparr>],
      Returns [api_A\<lparr>uu_order := Prim (Num (Fin 0))\<rparr>, api_B\<lparr>uu_order := Prim (Num (Fin 1))\<rparr>]]"
  by (simp add: session_Cons ensureStableOrder_def stamp_Cons assign_rank_def registry0_def
        api_A_def api_B_def get_prop_def set_prop_def inherited_def is_nullish_def
        comparator_def to_number_def)


lemma ensureStableOrder_stable_example:
  "cls (orderMap registry0) \<noteq> ArrayObject \<and>
   session (\<lambda>v. None) registry0 [[api_A, api_B], [api_B, api_A]] =
     [Returns [api_A\<lparr>uu_order := Prim (Num (Fin 0))\<rparr>, api_B\<lparr>uu_order := Prim (Num (Fin 1))\<rparr>],
      Returns [api_A\<lparr>uu_order := Prim (Num (Fin 0))\<rparr>, api_B\<lparr>uu_order := Prim (Num (Fin 1))\<rparr>]] \<and>
   uu_order (listed (session (\<lambda>v. None) registry0 [[api_A, api_B], [api_B, api_A]] ! 0) ! 1) =
   uu_order (listed (session (\<lambda>v. None) registry0 [[api_A, api_B], [api_B, api_A]] ! 1) ! 1) \<and>
   fst (ensureStableOrder (\<lambda>v. None)
          (fst (ensureStableOrder (\<lambda>v. None) registry0 [api_A, api_B])) [api_B, api_A])
     = fst (ensureStableOrder (\<lambda>v. None) registry0 [api_A, api_B])"
proof -
  let ?s = "session (\<lambda>v. None) registry0 [[api_A, api_B], [api_B, api_A]]"
  have c: "cls (orderMap registry0) \<noteq> ArrayObject"
    by (simp add: registry0_def)
  note t = ensureStableOrder_stable [OF c, of "[[api_A, api_B], [api_B, api_A]]" "\<lambda>v. None"]
  have "(0::nat) \<le> 1 \<and> 1 < length [[api_A, api_B], [api_B, api_A]] \<and>
        listed (?s ! 0) ! 1 \<in> set (listed (?s ! 0)) \<and>
        listed (?s ! 1) ! 1 \<in> set (listed (?s ! 1)) \<and>
        name (listed (?s ! 0) ! 1) = name (listed (?s ! 1) ! 1)"
    by (simp add: example_session)
  with t have r: "uu_order (listed (?s ! 0) ! 1) = uu_order (listed (?s ! 1) ! 1)"
    by blast
  have "name ` set [api_B, api_A] \<subseteq> name ` set [api_A, api_B]" by auto
  with t have i: "fst (ensureStableOrder (\<lambda>v. None)
          (fst (ensureStableOrder (\<lambda>v. None) registry0 [api_A, api_B])) [api_B, api_A])
     = fst (ensureStableOrder (\<lambda>v. None) registry0 [api_A, api_B])"
    by blast
  from c r i show ?thesis by (simp add: example_session)
qed

lemma array_index_0: "array_index ''0'' = Some 0"
  by (simp add: array_index_def is_digit_def nat_of_digits_def)

lemma array_index_7: "array_index ''7'' = Some 7"
  by (simp add: array_index_def is_digit_def nat_of_digits_def)

lemma digits_of_0: "digits_of 0 = ''0''"
  by code_simp

lemma adopt_array:
  "loadSavedOrder tn (Parsed (Arr [Prim (Num (Fin 5))])) registry0 =
     \<lparr>orderMap = \<lparr>props = [(''0'', Prim (Num (Fin 5)))], cls = ArrayObject\<rparr>, nextOrder = 6\<rparr>"
  by (simp add: loadSavedOrder_def adopt_def as_object_def math_max_def to_number_def registry0_def
        digits_of_0 del: digits_of.simps)

text \<open>
  C1 fails on the code. \<^verbatim>\<open>loadSavedOrder\<close> adopts a persisted array as the order map
  (\<^verbatim>\<open>typeof [] === "object"\<close>), and the rank read for an entity named \<open>length\<close> is then
  the length of that array, which grows when an entity named by an index is assigned a
  rank: with \<^verbatim>\<open>[5]\<close> persisted, the snapshot \<^verbatim>\<open>[length]\<close> ranks \<open>length\<close> as 1, and the
  next snapshot \<^verbatim>\<open>[7, length]\<close> ranks it as 8.
\<close>

theorem array_map_rank_changes:
  "session tn (loadSavedOrder tn (Parsed (Arr [Prim (Num (Fin 5))])) registry0)
     [[api_length], [api_7, api_length]] =
     [Returns [api_length\<lparr>uu_order := Prim (Num (Fin 1))\<rparr>],
      Returns [api_7\<lparr>uu_order := Prim (Num (Fin 6))\<rparr>,
               api_length\<lparr>uu_order := Prim (Num (Fin 8))\<rparr>]]"
  by (simp add: adopt_array session_Cons ensureStableOrder_def stamp_Cons assign_rank_def
        api_length_def api_7_def get_prop_def set_prop_def inherited_def is_nullish_def
        array_length_def List.map_filter_simps array_index_0 array_index_7
        array_prototype_keys_def object_prototype_keys_def comparator_def to_number_def)

lemma loadSavedOrder_Missing:
  "loadSavedOrder tn Missing st = st\<lparr>orderMap := \<lparr>props = [], cls = PlainObject\<rparr>, nextOrder := 0\<rparr>"
  by (simp add: loadSavedOrder_def adopt_def as_object_def math_max_def to_number_def)

text \<open>
  C5 fails on the code. \<^verbatim>\<open>loadSavedOrder\<close> replaces the prototype-less map of
  \<^verbatim>\<open>data()\<close> by an ordinary object (also when nothing is persisted: \<^verbatim>\<open>JSON.parse("{}")\<close>),
  so the test \<^verbatim>\<open>this.orderMap[api.name] == null\<close> finds the inherited member for a name
  such as \<open>constructor\<close>: the entity is never assigned a rank, the counter does not move,
  and its \<^verbatim>\<open>__order\<close> is the inherited function, no number above the ranks assigned.
\<close>

theorem prototype_name_gets_no_rank:
  "fst (ensureStableOrder tn (loadSavedOrder tn Missing registry0) [api_A, api_constructor]) =
     \<lparr>orderMap = \<lparr>props = [(''A'', Prim (Num (Fin 0)))], cls = PlainObject\<rparr>, nextOrder = 1\<rparr> \<and>
   set (listed (snd (ensureStableOrder tn (loadSavedOrder tn Missing registry0)
                       [api_A, api_constructor]))) =
     {api_A\<lparr>uu_order := Prim (Num (Fin 0))\<rparr>,
      api_constructor\<lparr>uu_order := Builtin ''constructor''\<rparr>}"
  by (simp add: ensureStableOrder_fst ensureStableOrder_listed loadSavedOrder_Missing
        stamp_Cons assign_rank_def registry0_def api_A_def api_constructor_def get_prop_def
        set_prop_def inherited_def is_nullish_def object_prototype_keys_def)

text \<open>
  The fallbacks that \<^verbatim>\<open>loadSavedOrder\<close> does make: when the persisted order is missing,
  cannot be read or parsed, or parses to \<^verbatim>\<open>null\<close>, a boolean, a number or a string, the
  registry has an empty map and counter 0: a missing key gives the empty object and
  counter 0, the other cases leave the registry as it is, which at startup (the only
  call, in \<^verbatim>\<open>mounted()\<close>) is the empty registry of \<^verbatim>\<open>data()\<close>. The function is total:
  every exception is caught inside it.
\<close>

lemma loadSavedOrder_fallback:
  "loadSavedOrder tn Missing st = st\<lparr>orderMap := \<lparr>props = [], cls = PlainObject\<rparr>, nextOrder := 0\<rparr> \<and>
   loadSavedOrder tn Unparsable st = st \<and>
   loadSavedOrder tn Unavailable st = st \<and>
   loadSavedOrder tn (Parsed (Prim p)) st = st \<and>
   props (orderMap (loadSavedOrder tn Missing registry0)) = [] \<and>
   nextOrder (loadSavedOrder tn Missing registry0) = 0 \<and>
   props (orderMap (loadSavedOrder tn Unparsable registry0)) = [] \<and>
   nextOrder (loadSavedOrder tn Unparsable registry0) = 0 \<and>
   props (orderMap (loadSavedOrder tn Unavailable registry0)) = [] \<and>
   nextOrder (loadSavedOrder tn Unavailable registry0) = 0 \<and>
   props (orderMap (loadSavedOrder tn (Parsed (Prim p)) registry0)) = [] \<and>
   nextOrder (loadSavedOrder tn (Parsed (Prim p)) registry0) = 0"
  by (simp add: loadSavedOrder_Missing)
     (simp add: loadSavedOrder_def adopt_def as_object_def registry0_def)


text \<open>
  C8 fails on the code. Persisted data that is malformed, or not an object, in other
  ways is adopted as the order map: for an object with a value that is no rank
  (\<^verbatim>\<open>{"A": 3, "B": "x"}\<close>, where \<^verbatim>\<open>Math.max\<close> gives \<^verbatim>\<open>NaN\<close>) the counter falls back to 0
  but the map is kept, and an array (\<^verbatim>\<open>[5]\<close>) passes the \<^verbatim>\<open>typeof\<close> test and becomes the
  map, with counter 6.
\<close>

theorem loadSavedOrder_keeps_malformed:
  "props (orderMap (loadSavedOrder tn
      (Parsed (Obj [(''A'', Prim (Num (Fin 3))), (''B'', Prim (Str ''x''))])) registry0)) =
     [(''A'', Prim (Num (Fin 3))), (''B'', Prim (Str ''x''))] \<and>
   nextOrder (loadSavedOrder (\<lambda>v. Some NaN)
      (Parsed (Obj [(''A'', Prim (Num (Fin 3))), (''B'', Prim (Str ''x''))])) registry0) = 0 \<and>
   props (orderMap (loadSavedOrder tn (Parsed (Arr [Prim (Num (Fin 5))])) registry0)) =
     [(''0'', Prim (Num (Fin 5)))] \<and>
   nextOrder (loadSavedOrder tn (Parsed (Arr [Prim (Num (Fin 5))])) registry0) = 6"
proof -
  have 1: "props (orderMap (loadSavedOrder tn
      (Parsed (Obj [(''A'', Prim (Num (Fin 3))), (''B'', Prim (Str ''x''))])) registry0)) =
     [(''A'', Prim (Num (Fin 3))), (''B'', Prim (Str ''x''))]"
    by (cases "tn (Prim (Str ''x''))")
       (simp_all add: loadSavedOrder_def adopt_def as_object_def math_max_def to_number_def
          registry0_def Let_def)
  have 2: "nextOrder (loadSavedOrder (\<lambda>v. Some NaN)
      (Parsed (Obj [(''A'', Prim (Num (Fin 3))), (''B'', Prim (Str ''x''))])) registry0) = 0"
    by (simp add: loadSavedOrder_def adopt_def as_object_def math_max_def to_number_def
          registry0_def Let_def)
  from 1 2 show ?thesis by (simp add: adopt_array)
qed


section \<open>Polling and fetching (C7, C9)\<close>

lemma poll_inv_cleared:
  assumes "poll_inv s"
  shows "clear_pending s = s\<lparr>timers := []\<rparr>"
proof (cases "fetchIntervalId s")
  case None
  with assms have "timers s = []"
    by (cases "timers s") (simp_all add: poll_inv_def)
  with None show ?thesis by (simp add: clear_pending_def)
next
  case (Some h)
  with assms have "0 < h" and "list_all (\<lambda>t. fst t = h) (timers s)"
    by (simp_all add: poll_inv_def list_all_iff)
  then have "filter (\<lambda>t. fst t \<noteq> h) (timers s) = []"
    by (simp add: list_all_iff filter_empty_conv)
  with Some \<open>0 < h\<close> show ?thesis by (simp add: clear_pending_def clearInterval_def)
qed

lemma startPolling_paused:
  assumes "poll_inv s"
    and "parseInt10 (refreshInterval s) = None \<or> (\<exists>n. parseInt10 (refreshInterval s) = Some n \<and> n \<le> 0)"
  shows "startPolling s = s\<lparr>timers := []\<rparr>"
  using assms(2) by (auto simp: startPolling_def poll_inv_cleared [OF assms(1)])

lemma startPolling_armed:
  assumes "poll_inv s" and "parseInt10 (refreshInterval s) = Some n" and "0 < n"
  shows "startPolling s =
           s\<lparr>timers := [(Suc (timer_seq s), n)], timer_seq := Suc (timer_seq s),
             fetchIntervalId := Some (Suc (timer_seq s))\<rparr>"
  using assms(2,3) by (simp add: startPolling_def poll_inv_cleared [OF assms(1)] setInterval_def)

lemma poll_inv_startPolling:
  assumes "poll_inv s"
  shows "poll_inv (startPolling s)"
proof (cases "parseInt10 (refreshInterval s)")
  case None
  with assms have "startPolling s = s\<lparr>timers := []\<rparr>" by (simp add: startPolling_paused)
  with assms show ?thesis by (simp add: poll_inv_def split: option.splits)
next
  case (Some n)
  show ?thesis
  proof (cases "0 < n")
    case True
    from startPolling_armed [OF assms Some True] show ?thesis by (simp add: poll_inv_def)
  next
    case False
    with Some assms have "startPolling s = s\<lparr>timers := []\<rparr>" by (simp add: startPolling_paused)
    with assms show ?thesis by (simp add: poll_inv_def split: option.splits)
  qed
qed

lemma poll_inv_begin:
  assumes "poll_inv s"
  shows "poll_inv (fst (fetchStatus_begin s))" and "timers (fst (fetchStatus_begin s)) = []"
  using assms
  by (simp_all add: fetchStatus_begin_def poll_inv_cleared [OF assms] poll_inv_def Let_def
        split: option.splits)

text \<open>
  C9: \<^verbatim>\<open>startPolling\<close> (whose interval is \<^verbatim>\<open>parseInt(this.refreshInterval, 10)\<close>) cancels
  the pending timer; if the interval is not positive (or not a number) it arms nothing
  and changes nothing else: polling is paused, no error; otherwise it arms one timer
  with that delay, whose callback is \<^verbatim>\<open>fetchStatus\<close>, and stores its handle. The timer is
  made with \<^verbatim>\<open>setInterval\<close>, and the first thing its callback does is clear it, so it
  fires once. The state satisfies the polling invariant, which \<^verbatim>\<open>data()\<close> establishes
  and every method keeps.
\<close>

theorem startPolling_spec:
  assumes "poll_inv s"
  shows "(case fetchIntervalId s of
            None \<Rightarrow> True
          | Some h \<Rightarrow> h \<notin> fst ` set (timers (startPolling s))) \<and>
         (case parseInt10 (refreshInterval s) of
            None \<Rightarrow> startPolling s = s\<lparr>timers := []\<rparr>
          | Some n \<Rightarrow>
              if n \<le> 0 then startPolling s = s\<lparr>timers := []\<rparr>
              else startPolling s =
                     s\<lparr>timers := [(Suc (timer_seq s), n)], timer_seq := Suc (timer_seq s),
                       fetchIntervalId := Some (Suc (timer_seq s))\<rparr> \<and>
                   timers (fst (fetchStatus_begin (startPolling s))) = []) \<and>
         poll_inv (startPolling s)"
proof -
  have old: "h \<notin> fst ` set (timers (startPolling s))" if "fetchIntervalId s = Some h" for h
  proof (cases "\<exists>n. parseInt10 (refreshInterval s) = Some n \<and> 0 < n")
    case True
    then obtain n where n: "parseInt10 (refreshInterval s) = Some n" "0 < n" by blast
    from assms that have "h \<le> timer_seq s" by (simp add: poll_inv_def)
    then show ?thesis by (simp add: startPolling_armed [OF assms n])
  next
    case False
    then have "parseInt10 (refreshInterval s) = None \<or>
        (\<exists>n. parseInt10 (refreshInterval s) = Some n \<and> n \<le> 0)"
      by (cases "parseInt10 (refreshInterval s)") (auto simp: not_less)
    from startPolling_paused [OF assms this] show ?thesis by simp
  qed
  have one: "timers (fst (fetchStatus_begin (startPolling s))) = []"
    using poll_inv_begin(2) [OF poll_inv_startPolling [OF assms]] .
  show ?thesis
    using old one poll_inv_startPolling [OF assms] startPolling_paused [OF assms]
      startPolling_armed [OF assms]
    by (auto split: option.splits simp: not_le)
qed


lemma parseInt10_default: "parseInt10 ''30000'' = Some 30000"
  by (simp add: parseInt10_def is_space_def is_digit_def nat_of_digits_def Let_def)

lemma parseInt10_zero: "parseInt10 ''0'' = Some 0"
  by (simp add: parseInt10_def is_space_def is_digit_def nat_of_digits_def Let_def)

lemma poll_inv_cong:
  "timers t = timers s \<Longrightarrow> fetchIntervalId t = fetchIntervalId s \<Longrightarrow>
     timer_seq t = timer_seq s \<Longrightarrow> poll_inv t = poll_inv s"
  by (simp add: poll_inv_def split: option.splits)

lemma poll_inv_app0: "poll_inv (app0 stored writable)"
  by (simp add: poll_inv_def app0_def)

theorem startPolling_spec_witness:
  "poll_inv (app0 Missing True :: unit app) \<and>
   startPolling (app0 Missing True :: unit app) =
     (app0 Missing True)\<lparr>timers := [(1, 30000)], timer_seq := 1, fetchIntervalId := Some 1\<rparr> \<and>
   timers (fst (fetchStatus_begin (startPolling (app0 Missing True :: unit app)))) = [] \<and>
   poll_inv (startPolling (app0 Missing True :: unit app)) \<and>
   startPolling ((startPolling (app0 Missing True :: unit app))\<lparr>refreshInterval := ''0''\<rparr>) =
     (app0 Missing True)\<lparr>timers := [], timer_seq := 1, fetchIntervalId := Some 1,
        refreshInterval := ''0''\<rparr>"
proof -
  let ?a = "app0 Missing True :: unit app"
  have 1: "poll_inv ?a" by (rule poll_inv_app0)
  have r: "parseInt10 (refreshInterval ?a) = Some 30000" and ts: "timer_seq ?a = 0"
    by (simp_all add: app0_def parseInt10_default)
  from startPolling_spec [OF 1]
  have "startPolling ?a = ?a\<lparr>timers := [(1, 30000)], timer_seq := 1, fetchIntervalId := Some 1\<rparr>
      \<and> timers (fst (fetchStatus_begin (startPolling ?a))) = []
      \<and> poll_inv (startPolling ?a)"
    by (auto simp: r ts)
  then have 2: "startPolling ?a = ?a\<lparr>timers := [(1, 30000)], timer_seq := 1, fetchIntervalId := Some 1\<rparr>"
    and 3: "timers (fst (fetchStatus_begin (startPolling ?a))) = []"
    and 4: "poll_inv (startPolling ?a)"
    by blast+
  have 5: "poll_inv ((startPolling ?a)\<lparr>refreshInterval := ''0''\<rparr>)"
    using 4 poll_inv_cong [of "(startPolling ?a)\<lparr>refreshInterval := ''0''\<rparr>" "startPolling ?a"]
    by simp
  from startPolling_spec [OF 5]
  have 6: "startPolling ((startPolling ?a)\<lparr>refreshInterval := ''0''\<rparr>) =
      (startPolling ?a)\<lparr>refreshInterval := ''0'', timers := []\<rparr>"
    by (simp add: parseInt10_zero)
  from 1 3 4 6 show ?thesis unfolding 2 by simp
qed

lemma stamp_frame:
  assumes "\<And>s a b. f (s\<lparr>orderMap := a, nextOrder := b\<rparr>) = f s"
  shows "f (fst (stamp st xs)) = f st"
proof (induction xs arbitrary: st)
  case Nil
  show ?case by simp
next
  case (Cons x xs)
  have "f (assign_rank st x) = f st"
    by (simp add: assign_rank_def assms)
  with Cons [of "assign_rank st x"] show ?case by (simp add: stamp_Cons)
qed


lemma ensureStableOrder_throws:
  "sort_by_order tn (snd (stamp s d)) = None \<Longrightarrow>
     ensureStableOrder tn s d = (fst (stamp s d), Throws (snd (stamp s d)))"
  by (simp add: ensureStableOrder_def split_def Let_def)

lemma ensureStableOrder_returns:
  "sort_by_order tn (snd (stamp s d)) = Some r \<Longrightarrow>
     ensureStableOrder tn s d = (fst (stamp s d), Returns r)"
  by (simp add: ensureStableOrder_def split_def Let_def)

lemma settle_frame:
  fixes s :: "('p, 'z) app_scheme"
  shows "\<exists>t :: ('p, 'z) app_scheme. fetchStatus_settle tn res s = startPolling t \<and>
       timers t = timers s \<and>
       timer_seq t = timer_seq s \<and> fetchIntervalId t = fetchIntervalId s \<and>
       refreshInterval t = refreshInterval s"
proof -
  have f: "timers (fst (stamp s xs)) = timers s" "timer_seq (fst (stamp s xs)) = timer_seq s"
    "fetchIntervalId (fst (stamp s xs)) = fetchIntervalId s"
    "refreshInterval (fst (stamp s xs)) = refreshInterval s" for xs :: "'p entity list"
    by (rule stamp_frame, simp)+
  have g: "timers (fetch_succeeded d u) = timers u" "timer_seq (fetch_succeeded d u) = timer_seq u"
    "fetchIntervalId (fetch_succeeded d u) = fetchIntervalId u"
    "refreshInterval (fetch_succeeded d u) = refreshInterval u"
    for d :: "'p entity list" and u :: "('p, 'z) app_scheme"
    by (simp_all add: fetch_succeeded_def saveOrder_def Let_def split: option.splits)
  show ?thesis
  proof (cases res)
    case Rejected
    then show ?thesis
      by (intro exI [of _ "(fetch_failed s)\<lparr>isLoading := False\<rparr>"])
         (simp add: fetchStatus_settle_def fetch_failed_def)
  next
    case NotArray
    then show ?thesis
      by (intro exI [of _ "(fetch_failed s)\<lparr>isLoading := False\<rparr>"])
         (simp add: fetchStatus_settle_def fetch_failed_def)
  next
    case (Items data)
    show ?thesis
    proof (cases "sort_by_order tn (snd (stamp s data))")
      case None
      with Items show ?thesis
        by (intro exI [of _ "(fetch_failed (fst (stamp s data)))\<lparr>isLoading := False\<rparr>"])
           (simp add: fetchStatus_settle_def fetch_failed_def ensureStableOrder_throws f)
    next
      case (Some ordered)
      with Items show ?thesis
        by (intro exI [of _ "(fetch_succeeded ordered (fst (stamp s data)))\<lparr>isLoading := False\<rparr>"])
           (simp add: fetchStatus_settle_def ensureStableOrder_returns f g)
    qed
  qed
qed


lemma startPolling_frame:
  "apis (startPolling s) = apis s" "fetchError (startPolling s) = fetchError s"
  "isLoading (startPolling s) = isLoading s" "refreshInterval (startPolling s) = refreshInterval s"
  by (simp_all add: startPolling_def clear_pending_def clearInterval_def setInterval_def Let_def
        split: option.splits)

lemma settle_rearms:
  fixes s :: "('p, 'z) app_scheme"
  assumes "poll_inv s" and "parseInt10 (refreshInterval s) = Some n" and "0 < n"
  shows "timers (fetchStatus_settle tn res s) = [(Suc (timer_seq s), n)] \<and>
         fetchIntervalId (fetchStatus_settle tn res s) = Some (Suc (timer_seq s))"
proof -
  from settle_frame [of tn res s]
  obtain t :: "('p, 'z) app_scheme" where t: "fetchStatus_settle tn res s = startPolling t"
    "timers t = timers s" "timer_seq t = timer_seq s" "fetchIntervalId t = fetchIntervalId s"
    "refreshInterval t = refreshInterval s"
    by blast
  from poll_inv_cong [OF t(2) t(4) t(3)] assms(1) have p: "poll_inv t" by simp
  from assms(2) t(5) have r: "parseInt10 (refreshInterval t) = Some n" by simp
  from startPolling_armed [OF p r assms(3)] t(1,3) show ?thesis by simp
qed

text \<open>
  C7: when the status request fails (it is rejected, or what it resolves with is no array,
  as the text of a body that is no JSON), \<^verbatim>\<open>fetchStatus\<close> leaves the entity collection
  unchanged, sets the error flag, clears the loading flag and calls \<^verbatim>\<open>startPolling\<close>;
  and whatever the outcome, success or failure, a positive interval has its timer armed
  again on completion.
\<close>

theorem fetchStatus_failure:
  fixes s :: "('p, 'z) app_scheme"
  assumes "res = Rejected \<or> res = NotArray"
  shows "apis (fst (fetchStatus_begin s)) = apis s \<and>
         apis (fetchStatus_settle tn res s) = apis s \<and>
         fetchError (fetchStatus_settle tn res s) = Some ''Failed to fetch status.'' \<and>
         \<not> isLoading (fetchStatus_settle tn res s) \<and>
         fetchStatus_settle tn res s =
           startPolling (s\<lparr>fetchError := Some ''Failed to fetch status.'', isLoading := False\<rparr>) \<and>
         (\<forall>(res' :: 'p response) n.
             poll_inv s \<and> parseInt10 (refreshInterval s) = Some n \<and> 0 < n \<longrightarrow>
               timers (fetchStatus_settle tn res' s) = [(Suc (timer_seq s), n)] \<and>
               fetchIntervalId (fetchStatus_settle tn res' s) = Some (Suc (timer_seq s)))"
proof -
  have b: "apis (fst (fetchStatus_begin s)) = apis s"
    by (simp add: fetchStatus_begin_def clear_pending_def clearInterval_def Let_def
          split: option.splits)
  have e: "fetchStatus_settle tn res s =
           startPolling (s\<lparr>fetchError := Some ''Failed to fetch status.'', isLoading := False\<rparr>)"
    using assms by (auto simp: fetchStatus_settle_def fetch_failed_def)
  have r: "timers (fetchStatus_settle tn res' s) = [(Suc (timer_seq s), n)] \<and>
           fetchIntervalId (fetchStatus_settle tn res' s) = Some (Suc (timer_seq s))"
    if "poll_inv s \<and> parseInt10 (refreshInterval s) = Some n \<and> 0 < n"
    for res' :: "'p response" and n
    using that settle_rearms [of s n tn res'] by blast
  have a: "apis (fetchStatus_settle tn res s) = apis s"
    "fetchError (fetchStatus_settle tn res s) = Some ''Failed to fetch status.''"
    "\<not> isLoading (fetchStatus_settle tn res s)"
    unfolding e by (simp_all add: startPolling_frame)
  from b a e r show ?thesis by blast
qed

theorem fetchStatus_failure_witness:
  "apis (fetchStatus_settle (\<lambda>v. None) Rejected
           ((app0 Missing True)\<lparr>apis := [api_A], isLoading := True\<rparr>)) = [api_A] \<and>
   fetchError (fetchStatus_settle (\<lambda>v. None) Rejected
           ((app0 Missing True)\<lparr>apis := [api_A], isLoading := True\<rparr>))
     = Some ''Failed to fetch status.'' \<and>
   \<not> isLoading (fetchStatus_settle (\<lambda>v. None) Rejected
           ((app0 Missing True)\<lparr>apis := [api_A], isLoading := True\<rparr>)) \<and>
   timers (fetchStatus_settle (\<lambda>v. None) Rejected
           ((app0 Missing True)\<lparr>apis := [api_A], isLoading := True\<rparr>)) = [(1, 30000)] \<and>
   timers (fetchStatus_settle (\<lambda>v. None) (Items [api_B, api_A])
           ((app0 Missing True)\<lparr>apis := [api_A], isLoading := True\<rparr>)) = [(1, 30000)]"
proof -
  let ?s = "(app0 Missing True)\<lparr>apis := [api_A], isLoading := True\<rparr>"
  have p: "poll_inv ?s" by (simp add: poll_inv_def app0_def)
  have r: "parseInt10 (refreshInterval ?s) = Some 30000" "timer_seq ?s = 0" "apis ?s = [api_A]"
    by (simp_all add: app0_def parseInt10_default)
  note t = fetchStatus_failure [of Rejected ?s "\<lambda>v. None"]
  from t have 1: "apis (fetchStatus_settle (\<lambda>v. None) Rejected ?s) = apis ?s"
    and 2: "fetchError (fetchStatus_settle (\<lambda>v. None) Rejected ?s) = Some ''Failed to fetch status.''"
    and 3: "\<not> isLoading (fetchStatus_settle (\<lambda>v. None) Rejected ?s)"
    by blast+
  from t have q: "\<forall>(res' :: unit response) n.
             poll_inv ?s \<and> parseInt10 (refreshInterval ?s) = Some n \<and> 0 < n \<longrightarrow>
               timers (fetchStatus_settle (\<lambda>v. None) res' ?s) = [(Suc (timer_seq ?s), n)] \<and>
               fetchIntervalId (fetchStatus_settle (\<lambda>v. None) res' ?s) = Some (Suc (timer_seq ?s))"
    by blast
  have h: "poll_inv ?s \<and> parseInt10 (refreshInterval ?s) = Some 30000 \<and> (0::int) < 30000"
    using p r(1) by simp
  from q h have 4: "timers (fetchStatus_settle (\<lambda>v. None) Rejected ?s) = [(Suc (timer_seq ?s), 30000)]"
    and 5: "timers (fetchStatus_settle (\<lambda>v. None) (Items [api_B, api_A]) ?s) = [(Suc (timer_seq ?s), 30000)]"
    by blast+
  from 1 2 3 4 5 show ?thesis unfolding r by simp
qed


lemma poll_inv_settle:
  fixes s :: "('p, 'z) app_scheme"
  assumes "poll_inv s"
  shows "poll_inv (fetchStatus_settle tn res s)"
proof -
  from settle_frame [of tn res s]
  obtain t :: "('p, 'z) app_scheme" where t: "fetchStatus_settle tn res s = startPolling t"
    "timers t = timers s" "timer_seq t = timer_seq s" "fetchIntervalId t = fetchIntervalId s"
    by blast
  from poll_inv_cong [OF t(2) t(4) t(3)] assms have "poll_inv t" by simp
  then show ?thesis unfolding t(1) by (rule poll_inv_startPolling)
qed

lemma loadSavedOrder_frame:
  "timers (loadSavedOrder tn p s) = timers s" "timer_seq (loadSavedOrder tn p s) = timer_seq s"
  "fetchIntervalId (loadSavedOrder tn p s) = fetchIntervalId s"
  by (simp_all add: loadSavedOrder_def adopt_def Let_def split: persisted.splits option.splits)

lemma poll_inv_mounted:
  assumes "poll_inv s"
  shows "poll_inv (mounted tn s)"
proof -
  from poll_inv_cong [of "loadSavedOrder tn (storage s) s" s] assms
  have "poll_inv (loadSavedOrder tn (storage s) s)"
    by (simp add: loadSavedOrder_frame)
  then show ?thesis
    unfolding mounted_def by (intro poll_inv_startPolling poll_inv_begin(1))
qed


section \<open>Chart reconciliation (C6)\<close>

lemma destroy_loop_map:
  "map_of (charts (destroy_loop env V keys s)) k =
     (if k \<in> set keys \<and> k \<notin> set V then None else map_of (charts s) k)"
proof (induction keys arbitrary: s)
  case Nil
  show ?case by simp
next
  case (Cons a keys)
  show ?case
  proof (cases "a \<notin> set V")
    case True
    show ?thesis
    proof (cases "map_of (charts s) a")
      case None
      with True show ?thesis by (auto simp: Cons.IH)
    next
      case (Some c)
      with True show ?thesis by (auto simp: Cons.IH delete_conv')
    qed
  next
    case False
    then show ?thesis by (auto simp: Cons.IH)
  qed
qed

lemma destroy_loop_log_mono:
  "set (destroyed s) \<subseteq> set (destroyed (destroy_loop env V keys s))"
proof (induction keys arbitrary: s)
  case Nil
  show ?case by simp
next
  case (Cons a keys)
  let ?s1 = "if a \<notin> set V then
          (case map_of (charts s) a of
             None \<Rightarrow> s
           | Some c \<Rightarrow>
               s\<lparr>destroyed := destroyed s @ [(c, destroy_ok env c)],
                 charts := AList.delete a (charts s)\<rparr>)
        else s"
  have "set (destroyed s) \<subseteq> set (destroyed ?s1)"
    by (auto split: option.splits)
  also have "\<dots> \<subseteq> set (destroyed (destroy_loop env V keys ?s1))"
    by (rule Cons.IH)
  finally show ?case by simp
qed

lemma destroy_loop_logged:
  "map_of (charts s) k = Some c \<Longrightarrow> k \<in> set keys \<Longrightarrow> k \<notin> set V \<Longrightarrow>
     (c, destroy_ok env c) \<in> set (destroyed (destroy_loop env V keys s))"
proof (induction keys arbitrary: s)
  case Nil
  then show ?case by simp
next
  case (Cons a keys)
  show ?case
  proof (cases "a = k")
    case True
    let ?s1 = "s\<lparr>destroyed := destroyed s @ [(c, destroy_ok env c)],
                 charts := AList.delete k (charts s)\<rparr>"
    have "(c, destroy_ok env c) \<in> set (destroyed ?s1)" by simp
    with destroy_loop_log_mono [of ?s1 env V keys]
    have "(c, destroy_ok env c) \<in> set (destroyed (destroy_loop env V keys ?s1))" by blast
    with True Cons.prems show ?thesis by simp
  next
    case False
    with Cons.prems have k: "k \<in> set keys" by simp
    let ?s1 = "if a \<notin> set V then
          (case map_of (charts s) a of
             None \<Rightarrow> s
           | Some c \<Rightarrow>
               s\<lparr>destroyed := destroyed s @ [(c, destroy_ok env c)],
                 charts := AList.delete a (charts s)\<rparr>)
        else s"
    from False Cons.prems(1) have "map_of (charts ?s1) k = Some c"
      by (auto split: option.splits simp: delete_conv')
    from Cons.IH [OF this k Cons.prems(3)] show ?thesis by simp
  qed
qed

lemma render_loop_Cons:
  "render_loop env (api # rest) s =
     (case render_one env api s of
        (s1, None) \<Rightarrow> render_loop env rest s1
      | (s1, Some e) \<Rightarrow> (s1, Some e))"
  by (simp add: render_one_def Let_def split: slot.splits chart.splits)

lemma render_one_cases:
  obtains
    (skip) "\<not> attached env (''spark-'' @ slug (name api))" "render_one env api s = (s, None)"
  | (create) c where "attached env (''spark-'' @ slug (name api))"
      "map_of (charts s) (name api) = None"
      "render_one env api s = (s\<lparr>charts := AList.update (name api) c (charts s)\<rparr>, None)"
  | (update) c where "attached env (''spark-'' @ slug (name api))"
      "map_of (charts s) (name api) \<noteq> None"
      "render_one env api s = (s\<lparr>charts := AList.update (name api) c (charts s)\<rparr>, None)"
  | (update_fails) c e where "attached env (''spark-'' @ slug (name api))"
      "map_of (charts s) (name api) \<noteq> None"
      "render_one env api s = (s\<lparr>charts := AList.update (name api) c (charts s)\<rparr>, Some e)"
  | (fails) e where "attached env (''spark-'' @ slug (name api))"
      "render_one env api s = (s, Some e)"
proof (cases "attached env (''spark-'' @ slug (name api))")
  case False
  then show ?thesis by (intro skip) (simp_all add: render_one_def)
next
  case att: True
  let ?id = "''spark-'' @ slug (name api)"
  let ?new = "blank_labels (length (history api))"
  show ?thesis
  proof (cases "chart_slot (charts s) (name api)")
    case Absent
    then have n: "map_of (charts s) (name api) = None"
      by (simp add: chart_slot_def split: option.splits if_splits)
    show ?thesis
    proof (cases "create_ok env ?id")
      case True
      with att Absent
      have "render_one env api s =
          (s\<lparr>charts := AList.update (name api) (Chart ?id ?new (history api)) (charts s)\<rparr>, None)"
        by (simp add: render_one_def)
      with att n show ?thesis by (rule create)
    next
      case False
      with att Absent have "render_one env api s = (s, Some LibraryError)"
        by (simp add: render_one_def)
      with att show ?thesis by (rule fails)
    qed
  next
    case (Own existing)
    then have n: "map_of (charts s) (name api) \<noteq> None"
      by (simp add: chart_slot_def split: option.splits if_splits)
    obtain el ls ds where e: "existing = Chart el ls ds" by (cases existing)
    show ?thesis
    proof (cases "update_ok env (Chart el ?new (history api))")
      case True
      with att Own e
      have "render_one env api s =
          (s\<lparr>charts := AList.update (name api) (Chart el ?new (history api)) (charts s)\<rparr>, None)"
        by (simp add: render_one_def Let_def)
      with att n show ?thesis by (rule update)
    next
      case False
      with att Own e
      have "render_one env api s =
          (s\<lparr>charts := AList.update (name api) (Chart el ?new (history api)) (charts s)\<rparr>,
           Some LibraryError)"
        by (simp add: render_one_def Let_def)
      with att n show ?thesis by (rule update_fails)
    qed
  next
    case (Inherited k)
    with att have "render_one env api s = (s, Some TypeError)"
      by (simp add: render_one_def)
    with att show ?thesis by (rule fails)
  qed
qed

lemma render_one_completes:
  "name api \<notin> set object_prototype_keys \<Longrightarrow> (\<forall>c. create_ok env c) \<Longrightarrow>
     (\<forall>c. update_ok env c) \<Longrightarrow> snd (render_one env api s) = None"
  by (auto simp: render_one_def Let_def chart_slot_def
        split: slot.splits chart.splits option.splits if_splits)

declare render_loop.simps(2) [simp del]

lemma render_one_destroyed: "destroyed (fst (render_one env api s)) = destroyed s"
  by (cases env api s rule: render_one_cases) auto

lemma render_one_keys_sub:
  "dom (map_of (charts (fst (render_one env api s)))) \<subseteq> insert (name api) (dom (map_of (charts s)))"
  by (cases env api s rule: render_one_cases) (auto simp: update_conv' split: if_splits)

lemma render_one_keys:
  assumes "snd (render_one env api s) = None"
  shows "dom (map_of (charts (fst (render_one env api s)))) =
           dom (map_of (charts s)) \<union> (if attached env (''spark-'' @ slug (name api)) then {name api} else {})"
  using assms
  by (cases env api s rule: render_one_cases) (auto simp: update_conv' split: if_splits)

lemma render_loop_destroyed: "destroyed (fst (render_loop env cards s)) = destroyed s"
proof (induction cards arbitrary: s)
  case Nil
  show ?case by simp
next
  case (Cons a cards)
  show ?case
  proof (cases "render_one env a s")
    case (Pair s1 r)
    with render_one_destroyed [of env a s] have d: "destroyed s1 = destroyed s" by simp
    show ?thesis
    proof (cases r)
      case None
      with Pair Cons.IH [of s1] d show ?thesis by (simp add: render_loop_Cons)
    next
      case (Some e)
      with Pair d show ?thesis by (simp add: render_loop_Cons)
    qed
  qed
qed

lemma render_loop_keys_sub:
  "dom (map_of (charts (fst (render_loop env cards s)))) \<subseteq> dom (map_of (charts s)) \<union> name ` set cards"
proof (induction cards arbitrary: s)
  case Nil
  show ?case by simp
next
  case (Cons a cards)
  show ?case
  proof (cases "render_one env a s")
    case (Pair s1 r)
    with render_one_keys_sub [of env a s]
    have d: "dom (map_of (charts s1)) \<subseteq> insert (name a) (dom (map_of (charts s)))" by simp
    show ?thesis
    proof (cases r)
      case None
      with Pair Cons.IH [of s1] d show ?thesis by (auto simp: render_loop_Cons)
    next
      case (Some e)
      with Pair d show ?thesis by (auto simp: render_loop_Cons)
    qed
  qed
qed

lemma render_loop_keys:
  "snd (render_loop env cards s) = None \<Longrightarrow>
     dom (map_of (charts (fst (render_loop env cards s)))) =
       dom (map_of (charts s)) \<union> {n \<in> name ` set cards. attached env (''spark-'' @ slug n)}"
proof (induction cards arbitrary: s)
  case Nil
  show ?case by simp
next
  case (Cons a cards)
  show ?case
  proof (cases "render_one env a s")
    case (Pair s1 r)
    show ?thesis
    proof (cases r)
      case None
      with Pair render_one_keys [of env a s]
      have d: "dom (map_of (charts s1)) =
           dom (map_of (charts s)) \<union> (if attached env (''spark-'' @ slug (name a)) then {name a} else {})"
        by simp
      from None Pair Cons.prems have "snd (render_loop env cards s1) = None"
        by (simp add: render_loop_Cons)
      from Cons.IH [OF this] None Pair d show ?thesis
        by (auto simp: render_loop_Cons)
    next
      case (Some e)
      with Pair Cons.prems show ?thesis by (simp add: render_loop_Cons)
    qed
  qed
qed

lemma render_loop_completes:
  "(\<forall>n \<in> name ` set cards. n \<notin> set object_prototype_keys) \<Longrightarrow> (\<forall>c. create_ok env c) \<Longrightarrow>
     (\<forall>c. update_ok env c) \<Longrightarrow> snd (render_loop env cards s) = None"
proof (induction cards arbitrary: s)
  case Nil
  show ?case by simp
next
  case (Cons a cards)
  from Cons.prems have "snd (render_one env a s) = None"
    by (intro render_one_completes) auto
  then obtain s1 where "render_one env a s = (s1, None)"
    by (cases "render_one env a s") auto
  with Cons.IH [of s1] Cons.prems show ?case by (simp add: render_loop_Cons)
qed

lemma handle_keys_dom: "handle_keys s = dom (map_of (charts s))"
  by (simp add: handle_keys_def dom_map_of_conv_image_fst)

lemma destroy_loop_keys:
  "handle_keys (destroy_loop env V (map fst (charts s)) s) = handle_keys s \<inter> set V"
proof -
  have "k \<in> set (map fst (charts s)) \<longleftrightarrow> k \<in> dom (map_of (charts s))" for k
    by (simp add: dom_map_of_conv_image_fst)
  then show ?thesis
    unfolding handle_keys_dom by (auto simp: destroy_loop_map dom_def)
qed

text \<open>
  C6, amended: after a chart-reconciliation pass against the visible entities \<open>V\<close> the
  handle map has no key outside \<open>V\<close>: every handle whose entity name is not in \<open>V\<close> is
  destroyed (whether or not \<^verbatim>\<open>destroy\<close> throws) and dropped. When the pass runs to
  completion, the keys are exactly the former keys that are in \<open>V\<close> together with the
  names in \<open>V\<close> whose canvas is attached: an entity in \<open>V\<close> whose render target is not in
  the document yet gets no handle in this pass. The pass runs to completion whenever the
  charting library's constructor and \<^verbatim>\<open>update\<close> do not throw and no visible name is the
  name of a member of \<^verbatim>\<open>Object.prototype\<close>.
\<close>

theorem updateSparklines_reconciles:
  "handle_keys (fst (updateSparklines env filteredApis s)) \<subseteq> name ` set filteredApis \<and>
   (\<forall>k c. map_of (charts s) k = Some c \<and> k \<notin> name ` set filteredApis \<longrightarrow>
      (c, destroy_ok env c) \<in> set (destroyed (fst (updateSparklines env filteredApis s))) \<and>
      k \<notin> handle_keys (fst (updateSparklines env filteredApis s))) \<and>
   (snd (updateSparklines env filteredApis s) = None \<longrightarrow>
      handle_keys (fst (updateSparklines env filteredApis s)) =
        (handle_keys s \<inter> name ` set filteredApis) \<union>
        {n \<in> name ` set filteredApis. attached env (''spark-'' @ slug n)}) \<and>
   ((\<forall>n \<in> name ` set filteredApis. n \<notin> set object_prototype_keys) \<and>
    (\<forall>c. create_ok env c) \<and> (\<forall>c. update_ok env c) \<longrightarrow>
      snd (updateSparklines env filteredApis s) = None)"
proof -
  let ?V = "map name filteredApis"
  let ?s1 = "destroy_loop env ?V (map fst (charts s)) s"
  have u: "updateSparklines env filteredApis s = render_loop env filteredApis ?s1"
    by (simp add: updateSparklines_def Let_def)
  have k1: "handle_keys ?s1 = handle_keys s \<inter> name ` set filteredApis"
    using destroy_loop_keys [of env ?V s] by simp
  have a: "handle_keys (fst (render_loop env filteredApis ?s1)) \<subseteq> name ` set filteredApis"
    using render_loop_keys_sub [of env filteredApis ?s1] k1
    unfolding handle_keys_dom by blast
  have b: "(c, destroy_ok env c) \<in> set (destroyed (fst (render_loop env filteredApis ?s1))) \<and>
      k \<notin> handle_keys (fst (render_loop env filteredApis ?s1))"
    if "map_of (charts s) k = Some c \<and> k \<notin> name ` set filteredApis" for k c
  proof
    from that have "(k, c) \<in> set (charts s)"
      by (auto dest: map_of_SomeD)
    then have "k \<in> set (map fst (charts s))"
      by force
    with that destroy_loop_logged [of s k c "map fst (charts s)" ?V env]
    show "(c, destroy_ok env c) \<in> set (destroyed (fst (render_loop env filteredApis ?s1)))"
      by (simp add: render_loop_destroyed)
    from a that show "k \<notin> handle_keys (fst (render_loop env filteredApis ?s1))" by blast
  qed
  have c: "handle_keys (fst (render_loop env filteredApis ?s1)) =
        (handle_keys s \<inter> name ` set filteredApis) \<union>
        {n \<in> name ` set filteredApis. attached env (''spark-'' @ slug n)}"
    if "snd (render_loop env filteredApis ?s1) = None"
    using render_loop_keys [OF that] k1 unfolding handle_keys_dom by simp
  have d: "snd (render_loop env filteredApis ?s1) = None"
    if "(\<forall>n \<in> name ` set filteredApis. n \<notin> set object_prototype_keys) \<and>
        (\<forall>c. create_ok env c) \<and> (\<forall>c. update_ok env c)"
    using that by (intro render_loop_completes) blast+
  from a b c d show ?thesis unfolding u by blast
qed

lemma slug_auth: "slug ''Auth Service'' = ''auth-service''"
  by code_simp

lemma slug_db: "slug ''db'' = ''db''"
  by code_simp

text \<open>
  C6, as stated, fails: with no handle yet and one visible entity whose canvas is not
  in the document (the race the loop guards against with \<^verbatim>\<open>if (!el) return\<close>), the pass
  completes and the handle map is still empty, so its keys are not the visible set.
\<close>

theorem reconciliation_counterexample:
  "snd (updateSparklines no_canvas [card_auth] \<lparr>charts = [], destroyed = []\<rparr>) = None \<and>
   handle_keys (fst (updateSparklines no_canvas [card_auth] \<lparr>charts = [], destroyed = []\<rparr>)) = {} \<and>
   handle_keys (fst (updateSparklines no_canvas [card_auth] \<lparr>charts = [], destroyed = []\<rparr>))
     \<noteq> name ` set [card_auth]"
  by (simp add: updateSparklines_def render_loop.simps no_canvas_def handle_keys_def card_auth_def)

lemma example_reconcile:
  "updateSparklines auth_canvas [card_auth, card_db] one_old_chart =
     (\<lparr>charts = [(''Auth Service'', Chart ''spark-auth-service'' [[]] [Num (Fin 0.3)])],
       destroyed = [(Chart ''spark-old'' [] [], False)]\<rparr>, None)"
  by (simp add: updateSparklines_def render_loop.simps auth_canvas_def one_old_chart_def
        card_auth_def card_db_def slug_auth slug_db chart_slot_def object_prototype_keys_def
        history_def blank_labels_def delete_conv')

theorem updateSparklines_reconciles_witness:
  "snd (updateSparklines auth_canvas [card_auth, card_db] one_old_chart) = None \<and>
   handle_keys (fst (updateSparklines auth_canvas [card_auth, card_db] one_old_chart))
     = {''Auth Service''} \<and>
   (Chart ''spark-old'' [] [], False)
     \<in> set (destroyed (fst (updateSparklines auth_canvas [card_auth, card_db] one_old_chart))) \<and>
   ''old'' \<notin> handle_keys (fst (updateSparklines auth_canvas [card_auth, card_db] one_old_chart))"
proof -
  let ?r = "updateSparklines auth_canvas [card_auth, card_db] one_old_chart"
  note t = updateSparklines_reconciles [of auth_canvas "[card_auth, card_db]" one_old_chart]
  have n: "snd ?r = None" by (simp add: example_reconcile)
  have o: "map_of (charts one_old_chart) ''old'' = Some (Chart ''spark-old'' [] []) \<and>
           ''old'' \<notin> name ` set [card_auth, card_db]"
    by (simp add: one_old_chart_def card_auth_def card_db_def)
  from t o have 1: "(Chart ''spark-old'' [] [], destroy_ok auth_canvas (Chart ''spark-old'' [] []))
       \<in> set (destroyed (fst ?r)) \<and> ''old'' \<notin> handle_keys (fst ?r)"
    by blast
  from t n have 2: "handle_keys (fst ?r) =
        (handle_keys one_old_chart \<inter> name ` set [card_auth, card_db]) \<union>
        {n \<in> name ` set [card_auth, card_db]. attached auth_canvas (''spark-'' @ slug n)}"
    by blast
  have 3: "(handle_keys one_old_chart \<inter> name ` set [card_auth, card_db]) \<union>
        {n \<in> name ` set [card_auth, card_db]. attached auth_canvas (''spark-'' @ slug n)}
        = {''Auth Service''}"
    by (auto simp: handle_keys_def one_old_chart_def card_auth_def card_db_def auth_canvas_def
          slug_auth slug_db)
  have 4: "destroy_ok auth_canvas (Chart ''spark-old'' [] []) = False"
    by (simp add: auth_canvas_def)
  from n 1 2 show ?thesis unfolding 3 4 by blast
qed


end
